theory Spec2Isabelle
  imports Main "HOL-Library.AList"
begin

section \<open>The job runner of script-runner (src/runner.js)\<close>

text \<open>
  A shallow embedding of the class \<open>ScriptRunner\<close>. The runner is single-threaded: every
  request and every callback of a child process runs to completion before the next one
  starts, so the program is a state machine whose steps are those requests and
  callbacks. What the runner cannot decide itself is handed to each step in a record
  \<open>env\<close>: the clock, the library functions (\<open>RegExp\<close>, \<open>path.join\<close>, UTF-8) and whether
  the file system accepts an open or a write.

  Job objects are shared in the source between the job map, the queue and the closures
  of \<open>executeJob\<close>. The embedding keeps them in a heap (a list, the address of an object
  is its index); the job map and the queue hold addresses.
\<close>

subsection \<open>Values\<close>

type_synonym bytes = string
type_synonym time = int
type_synonym addr = nat

text \<open>
  A \<open>Buffer\<close> is a list of bytes. A string of the source is a \<open>string\<close> whose elements stand
  for its code units, so that \<open>length\<close> is the source's \<open>.length\<close>. A time is the number of
  milliseconds \<open>Date.now()\<close> returns; the ISO text \<open>nowIso()\<close> makes of it is identified
  with it. Integer-valued numbers are \<open>int\<close>: the source adds and compares them only
  below \<open>2^53\<close>, where its floating point arithmetic is exact.
\<close>

datatype jsval =
    JUndefined
  | JNull
  | JBool bool
  | JInt int
  | JNonInt
  | JString string
  | JArray "jsval list"
  | JObject "(string \<times> jsval) list"

text \<open>
  \<open>JInt\<close> is a number for which \<open>Number.isInteger\<close> holds, \<open>JNonInt\<close> any other number
  (a fraction, \<open>NaN\<close>, an infinity). \<open>JArray\<close> is a plain array and \<open>JObject\<close> a plain
  object with its own properties, none of them a function: the values \<open>JSON.parse\<close>
  builds, from which the server takes a request.
\<close>

fun toString_ok :: "jsval \<Rightarrow> bool" where
  "toString_ok (JArray vs) =
     (\<forall>v \<in> set vs. v = JUndefined \<or> v = JNull \<or> toString_ok v)"
| "toString_ok (JObject fs) = (map_of fs ''toString'' = None)"
| "toString_ok v = True"

text \<open>
  \<open>toString_ok v\<close> says that the conversion of \<open>v\<close> to a string, which a template literal
  performs on it, returns; otherwise it throws a \<open>TypeError\<close>. A primitive value always
  converts. An object converts through its \<open>toString\<close> method, then its \<open>valueOf\<close>: an own
  property \<open>toString\<close> hides the method of \<open>Object.prototype\<close> and is not callable, and
  \<open>valueOf\<close>, own or inherited, gives no primitive value, so the conversion throws; without
  such a property the inherited \<open>toString\<close> returns. An array converts by \<open>join\<close>, which
  converts every element other than \<open>undefined\<close> and \<open>null\<close>.
\<close>

datatype status = QUEUED | RUNNING | SUCCEEDED | FAILED | TIMED_OUT | CANCELED | OTHER string

datatype stream = Stdout | Stderr

datatype err_code = SCRIPT_NOT_FOUND | INVALID_ARGS | JOB_NOT_FOUND

datatype message =
    Script_not_found jsval
  | Args_not_array
  | Too_many_args int
  | Arg_not_string nat
  | Arg_too_long nat int
  | Arg_no_match nat
  | Job_not_found string
  | Stream_invalid

datatype exn = SyntaxError string | TypeError

record script =
  script_id :: string
  path :: string
  script_mode :: string
  timeoutSec :: int
  maxItems :: int
  itemPattern :: string
  itemMaxLength :: int

text \<open>
  The fields of a job that \<open>serializeJob\<close> and \<open>serializeJobForStore\<close> copy are the record
  \<open>snapshot\<close>; a job object has \<open>args\<close> and \<open>cancelRequested\<close> besides. A missing or empty
  \<open>jobId\<close>, \<open>stdoutRef\<close> or \<open>stderrRef\<close> (a persisted record can lack them) is the empty
  string, which is falsy as they are.
\<close>

record snapshot =
  jobId :: string
  scriptId :: string
  status :: status
  code :: "int option"
  startedAt :: "time option"
  endedAt :: "time option"
  durationMs :: "int option"
  createdAt :: "time option"
  mode :: string
  stdoutRef :: string
  stderrRef :: string
  stdoutSize :: int
  stderrSize :: int
  stdoutTruncated :: bool
  stderrTruncated :: bool
  stdoutPreview :: string
  stderrPreview :: string

record job = snapshot +
  args :: "string list"
  cancelRequested :: bool

text \<open>The variables \<open>executeJob\<close> closes over, one set per spawned child.\<close>

record exec_ctx =
  startedMs :: time
  stdoutFd :: bool
  stderrFd :: bool
  stdoutPreviewBuf :: bytes
  stderrPreviewBuf :: bytes
  timeoutHandle :: bool
  timedOut :: bool
  finished :: bool

text \<open>
  \<open>stdoutFd\<close> and \<open>stderrFd\<close> say whether the descriptor is open (not \<open>null\<close>);
  \<open>timeoutHandle\<close> whether a timer is pending.
\<close>

datatype json_entry = Non_object | Object snapshot

datatype disk_content = No_file | Unparsable | Not_array | Entries "json_entry list"

record runner =
  scriptMap :: "(string \<times> script) list"
  maxConcurrent :: int
  defaultMode :: string
  jobStoreFile :: string
  logsDir :: string
  maxLogBytesPerStream :: int
  previewMaxBytes :: int
  runningCount :: int
  queue :: "(addr \<times> script) list"
  seq :: int
  jobs :: "(string \<times> addr) list"
  heap :: "job list"
  execs :: "addr \<Rightarrow> exec_ctx option"
  files :: "string \<Rightarrow> bytes option"
  store :: disk_content

text \<open>
  \<open>jobs\<close> and \<open>scriptMap\<close> are the source's \<open>Map\<close>s, in insertion order. \<open>files\<close> is the
  file system under \<open>logsDir\<close> and \<open>store\<close> the content of \<open>jobStoreFile\<close>.
\<close>

record runner_config =
  cfg_maxConcurrent :: int
  cfg_defaultMode :: string
  cfg_jobStoreFile :: string
  cfg_logsDir :: string
  cfg_maxLogBytesPerStream :: "int option"
  cfg_previewMaxBytes :: "int option"

record config =
  cfg_runner :: runner_config
  cfg_scripts :: "script list"

record env =
  now :: time
  regexp :: "string \<Rightarrow> (string \<Rightarrow> bool) option"
  path_join :: "string \<Rightarrow> string \<Rightarrow> string"
  path_dirname :: "string \<Rightarrow> string"
  utf8_decode :: "bytes \<Rightarrow> string"
  utf8_encode :: "string \<Rightarrow> bytes"
  open_ok :: "string \<Rightarrow> bool"
  write_error :: "string option"
  persist_ok :: bool

text \<open>
  \<open>regexp p\<close> is \<open>new RegExp(p)\<close>: \<open>None\<close> when the constructor throws a \<open>SyntaxError\<close>,
  otherwise the regular expression's \<open>test\<close>. \<open>open_ok p\<close> says whether
  \<open>fs.openSync(p, "w")\<close> succeeds, \<open>write_error\<close> is the message of the exception
  \<open>fs.writeSync\<close> throws (if it does) and \<open>persist_ok\<close> whether the job store can be
  written.
\<close>

subsection \<open>Helpers\<close>

definition digit_char :: "nat \<Rightarrow> char" where
  "digit_char n = ''0123456789'' ! n"

function dec :: "nat \<Rightarrow> string" where
  "dec n = (if n < 10 then [digit_char n] else dec (n div 10) @ [digit_char (n mod 10)])"
  by pat_completeness auto
termination dec
  by (relation "measure id") auto

declare dec.simps [simp del]

definition num_to_string :: "int \<Rightarrow> string" where
  "num_to_string i = (if i < 0 then CHR ''-'' # dec (nat (- i)) else dec (nat i))"

definition or_default :: "int option \<Rightarrow> int \<Rightarrow> int" where
  "or_default v d = (case v of None \<Rightarrow> d | Some n \<Rightarrow> if n = 0 then d else n)"

text \<open>
  \<open>or_default v d\<close> is the source's \<open>v || d\<close> for a number that may be missing: \<open>0\<close> is
  falsy as \<open>undefined\<close> is.
\<close>

definition appendTailBuffer :: "bytes \<Rightarrow> bytes \<Rightarrow> int \<Rightarrow> bytes" where
  "appendTailBuffer current chunk maxBytes =
     (if maxBytes \<le> 0 then []
      else let combined = current @ chunk in
        if int (length combined) \<le> maxBytes then combined
        else drop (length combined - nat maxBytes) combined)"

definition is_terminal :: "status \<Rightarrow> bool" where
  "is_terminal st = (st = SUCCEEDED \<or> st = FAILED \<or> st = TIMED_OUT \<or> st = CANCELED)"

definition update_job :: "addr \<Rightarrow> (job \<Rightarrow> job) \<Rightarrow> runner \<Rightarrow> runner" where
  "update_job a f s = s\<lparr>heap := (heap s)[a := f (heap s ! a)]\<rparr>"

definition serializeJob :: "job \<Rightarrow> snapshot" where
  "serializeJob j =
     \<lparr>jobId = jobId j, scriptId = scriptId j, status = status j, code = code j,
      startedAt = startedAt j, endedAt = endedAt j, durationMs = durationMs j,
      createdAt = createdAt j, mode = mode j, stdoutRef = stdoutRef j,
      stderrRef = stderrRef j, stdoutSize = stdoutSize j, stderrSize = stderrSize j,
      stdoutTruncated = stdoutTruncated j, stderrTruncated = stderrTruncated j,
      stdoutPreview = stdoutPreview j, stderrPreview = stderrPreview j\<rparr>"

definition serializeJobForStore :: "job \<Rightarrow> snapshot" where
  "serializeJobForStore j = serializeJob j"

definition persistJobs :: "env \<Rightarrow> runner \<Rightarrow> runner" where
  "persistJobs e s =
     (if persist_ok e
      then s\<lparr>store := Entries (map (\<lambda>(k, a). Object (serializeJobForStore (heap s ! a))) (jobs s))\<rparr>
      else s)"

text \<open>
  \<open>persistJobs\<close> rewrites the whole store from the job map; when the write fails the
  source logs the error and goes on, with the file as it was.
\<close>

subsection \<open>Loading and construction\<close>

definition job_of_record :: "snapshot \<Rightarrow> job" where
  "job_of_record r =
     \<lparr>jobId = jobId r, scriptId = scriptId r, status = status r, code = code r,
      startedAt = startedAt r, endedAt = endedAt r, durationMs = durationMs r,
      createdAt = createdAt r, mode = mode r, stdoutRef = stdoutRef r,
      stderrRef = stderrRef r, stdoutSize = stdoutSize r, stderrSize = stderrSize r,
      stdoutTruncated = stdoutTruncated r, stderrTruncated = stderrTruncated r,
      stdoutPreview = stdoutPreview r, stderrPreview = stderrPreview r,
      args = [], cancelRequested = False\<rparr>"

definition recover :: "env \<Rightarrow> snapshot \<Rightarrow> snapshot" where
  "recover e r =
     (if status r = RUNNING \<or> status r = QUEUED
      then let r1 = r\<lparr>status := FAILED, code := Some (- 1), endedAt := Some (now e)\<rparr> in
        (case startedAt r1 of
           None \<Rightarrow> r1
         | Some t \<Rightarrow> r1\<lparr>durationMs := Some (max 0 (now e - t))\<rparr>)
      else r)"

definition loadEntry :: "env \<Rightarrow> json_entry \<Rightarrow> runner \<Rightarrow> runner" where
  "loadEntry e entry s =
     (case entry of
        Non_object \<Rightarrow> s
      | Object r \<Rightarrow>
          if jobId r = [] then s
          else let r1 = recover e r in
            s\<lparr>heap := heap s @ [job_of_record r1],
              jobs := AList.update (jobId r1) (length (heap s)) (jobs s)\<rparr>)"

definition loadJobsFromDisk :: "env \<Rightarrow> runner \<Rightarrow> runner" where
  "loadJobsFromDisk e s =
     (case store s of
        Entries es \<Rightarrow> fold (loadEntry e) es s
      | _ \<Rightarrow> s)"

definition ScriptRunner ::
  "env \<Rightarrow> config \<Rightarrow> disk_content \<Rightarrow> (string \<Rightarrow> bytes option) \<Rightarrow> runner" where
  "ScriptRunner e cfg disk fs =
     loadJobsFromDisk e
       \<lparr>scriptMap = fold (\<lambda>sc m. AList.update (script_id sc) sc m) (cfg_scripts cfg) [],
        maxConcurrent = cfg_maxConcurrent (cfg_runner cfg),
        defaultMode = cfg_defaultMode (cfg_runner cfg),
        jobStoreFile = cfg_jobStoreFile (cfg_runner cfg),
        logsDir =
          (if cfg_logsDir (cfg_runner cfg) \<noteq> [] then cfg_logsDir (cfg_runner cfg)
           else path_join e (path_dirname e (cfg_jobStoreFile (cfg_runner cfg))) ''logs''),
        maxLogBytesPerStream = or_default (cfg_maxLogBytesPerStream (cfg_runner cfg)) (1024 * 1024),
        previewMaxBytes = or_default (cfg_previewMaxBytes (cfg_runner cfg)) 4096,
        runningCount = 0,
        queue = [],
        seq = 0,
        jobs = [],
        heap = [],
        execs = (\<lambda>_. None),
        files = fs,
        store = disk\<rparr>"

subsection \<open>Validation\<close>

datatype validation = Valid script | Invalid err_code message

fun check_items :: "(string \<Rightarrow> bool) \<Rightarrow> int \<Rightarrow> nat \<Rightarrow> jsval list \<Rightarrow> (err_code \<times> message) option" where
  "check_items test maxLen i [] = None"
| "check_items test maxLen i (v # vs) =
     (case v of
        JString x \<Rightarrow>
          if int (length x) > maxLen then Some (INVALID_ARGS, Arg_too_long i maxLen)
          else if \<not> test x then Some (INVALID_ARGS, Arg_no_match i)
          else check_items test maxLen (Suc i) vs
      | _ \<Rightarrow> Some (INVALID_ARGS, Arg_not_string i))"

text \<open>
  \<open>check_items\<close> is the \<open>for\<close> loop of \<open>validateRequest\<close> from index \<open>i\<close> on; \<open>None\<close> when
  the loop ends without a \<open>return\<close>.
\<close>

definition validateRequest :: "env \<Rightarrow> runner \<Rightarrow> jsval \<Rightarrow> jsval \<Rightarrow> exn + validation" where
  "validateRequest e s sid as =
     (case (case sid of JString k \<Rightarrow> map_of (scriptMap s) k | _ \<Rightarrow> None) of
        None \<Rightarrow>
          if toString_ok sid then Inr (Invalid SCRIPT_NOT_FOUND (Script_not_found sid))
          else Inl TypeError
      | Some sc \<Rightarrow>
          (case as of
             JArray vs \<Rightarrow>
               if int (length vs) > maxItems sc
               then Inr (Invalid INVALID_ARGS (Too_many_args (maxItems sc)))
               else (case regexp e (itemPattern sc) of
                       None \<Rightarrow> Inl (SyntaxError (itemPattern sc))
                     | Some test \<Rightarrow>
                         (case check_items test (itemMaxLength sc) 0 vs of
                            Some (c, m) \<Rightarrow> Inr (Invalid c m)
                          | None \<Rightarrow> Inr (Valid sc)))
           | _ \<Rightarrow> Inr (Invalid INVALID_ARGS Args_not_array)))"

text \<open>
  The message of \<open>SCRIPT_NOT_FOUND\<close> is a template literal over the raw \<open>scriptId\<close>:
  \<open>Script_not_found sid\<close> stands for its text when \<open>sid\<close> converts to a string, and the
  \<open>TypeError\<close> of the conversion leaves \<open>validateRequest\<close> otherwise. The other messages
  are built from numbers.
\<close>

definition resolveMode :: "runner \<Rightarrow> script \<Rightarrow> jsval \<Rightarrow> string" where
  "resolveMode s sc requestedMode =
     (if requestedMode = JString ''sync'' \<or> requestedMode = JString ''async''
      then (case requestedMode of JString m \<Rightarrow> m | _ \<Rightarrow> defaultMode s)
      else if script_mode sc = ''sync'' \<or> script_mode sc = ''async'' then script_mode sc
      else defaultMode s)"

subsection \<open>Creating and scheduling jobs\<close>

definition nextJobId :: "env \<Rightarrow> runner \<Rightarrow> string \<times> runner" where
  "nextJobId e s =
     (let s1 = s\<lparr>seq := seq s + 1\<rparr>
      in (''job_'' @ num_to_string (now e) @ ''_'' @ num_to_string (seq s1), s1))"

definition createJob :: "env \<Rightarrow> string \<Rightarrow> string list \<Rightarrow> string \<Rightarrow> runner \<Rightarrow> addr \<times> runner" where
  "createJob e sid as m s =
     (let (jid, s1) = nextJobId e s;
          j = \<lparr>jobId = jid, scriptId = sid, status = QUEUED, code = None,
               startedAt = None, endedAt = None, durationMs = None,
               createdAt = Some (now e), mode = m,
               stdoutRef = jid @ ''.stdout.log'', stderrRef = jid @ ''.stderr.log'',
               stdoutSize = 0, stderrSize = 0,
               stdoutTruncated = False, stderrTruncated = False,
               stdoutPreview = [], stderrPreview = [],
               args = as, cancelRequested = False\<rparr>;
          a = length (heap s1);
          s2 = s1\<lparr>heap := heap s1 @ [j], jobs := AList.update jid a (jobs s1)\<rparr>
      in (a, persistJobs e s2))"

definition cancelAtHead :: "env \<Rightarrow> addr \<Rightarrow> runner \<Rightarrow> runner" where
  "cancelAtHead e a s =
     persistJobs e
       (update_job a
          (\<lambda>j. j\<lparr>status := CANCELED, code := Some (- 1), endedAt := Some (now e),
                 durationMs := Some 0\<rparr>) s)"

text \<open>\<open>cancelAtHead\<close> is the branch of \<open>drainQueue\<close> for a job whose cancel was requested.\<close>

definition logPath :: "env \<Rightarrow> runner \<Rightarrow> string \<Rightarrow> string" where
  "logPath e s ref = path_join e (logsDir s) ref"

definition opens :: "env \<Rightarrow> addr \<Rightarrow> runner \<Rightarrow> bool" where
  "opens e a s =
     (open_ok e (logPath e s (stdoutRef (heap s ! a))) \<and>
      open_ok e (logPath e s (stderrRef (heap s ! a))))"

definition executeJob_body :: "env \<Rightarrow> addr \<Rightarrow> script \<Rightarrow> runner \<Rightarrow> runner" where
  "executeJob_body e a sc s =
     (let s1 = persistJobs e
                 (update_job a (\<lambda>j. j\<lparr>status := RUNNING, startedAt := Some (now e)\<rparr>)
                    (s\<lparr>runningCount := runningCount s + 1\<rparr>));
          startedMs0 = now e;
          stdoutPath = logPath e s1 (stdoutRef (heap s1 ! a));
          stderrPath = logPath e s1 (stderrRef (heap s1 ! a))
      in if \<not> open_ok e stdoutPath then
           persistJobs e
             ((update_job a
                (\<lambda>j. j\<lparr>status := FAILED, code := Some (- 1), endedAt := Some (now e),
                       durationMs := Some (now e - startedMs0),
                       stderrPreview := ''failed to open log files''\<rparr>) s1)
              \<lparr>runningCount := runningCount s1 - 1\<rparr>)
         else if \<not> open_ok e stderrPath then
           persistJobs e
             ((update_job a
                (\<lambda>j. j\<lparr>status := FAILED, code := Some (- 1), endedAt := Some (now e),
                       durationMs := Some (now e - startedMs0),
                       stderrPreview := ''failed to open log files''\<rparr>)
                (s1\<lparr>files := (files s1)(stdoutPath \<mapsto> [])\<rparr>))
              \<lparr>runningCount := runningCount s1 - 1\<rparr>)
         else
           s1\<lparr>files := (files s1)(stdoutPath \<mapsto> [], stderrPath \<mapsto> []),
              execs := (execs s1)(a \<mapsto>
                \<lparr>startedMs = startedMs0, stdoutFd = True, stderrFd = True,
                 stdoutPreviewBuf = [], stderrPreviewBuf = [],
                 timeoutHandle = (timeoutSec sc > 0), timedOut = False,
                 finished = False\<rparr>)\<rparr>)"

text \<open>
  \<open>executeJob_body\<close> is \<open>executeJob\<close> without the call of \<open>drainQueue\<close> that ends its
  \<open>catch\<close> block: the state when the log files could not be opened (the job is failed and
  the counter is given back), or the state once the child is spawned, its handlers are
  installed and its timer is armed. The child itself is outside the runner; what it does
  arrives as the events below. The text \<open>error.message\<close> adds to the preview is left
  out. The two calls of \<open>ensureParentDir\<close> before the \<open>try\<close> and the call of \<open>spawn\<close>
  after it are outside the \<open>try\<close>, and are taken to return: the directory of the logs can
  be created and the shell can be started. Were one of them to throw, the exception would
  leave \<open>executeJob\<close> with the job marked as running and counted, and without a child:
  the steps below, and so the reachable states, are those in which these calls return.
  What is proved of rejected requests does not depend on this, as they do not reach
  \<open>executeJob\<close>.
\<close>

function drainQueue :: "env \<Rightarrow> runner \<Rightarrow> runner" where
  "drainQueue e s =
     (if runningCount s < maxConcurrent s \<and> queue s \<noteq> [] then
        (let a = fst (hd (queue s)); sc = snd (hd (queue s));
             s1 = s\<lparr>queue := tl (queue s)\<rparr>
         in if cancelRequested (heap s1 ! a) then drainQueue e (cancelAtHead e a s1)
            else drainQueue e (executeJob_body e a sc s1))
      else s)"
  by pat_completeness auto

lemma queue_persistJobs: "queue (persistJobs e s) = queue s"
  by (simp add: persistJobs_def)

lemma queue_update_job: "queue (update_job a f s) = queue s"
  by (simp add: update_job_def)

lemma queue_cancelAtHead: "queue (cancelAtHead e a s) = queue s"
  by (simp add: cancelAtHead_def queue_persistJobs queue_update_job)

lemma queue_executeJob_body: "queue (executeJob_body e a sc s) = queue s"
  by (simp add: executeJob_body_def Let_def queue_persistJobs queue_update_job)

termination drainQueue
  by (relation "measure (\<lambda>(e, s). length (queue s))")
     (auto simp: queue_cancelAtHead queue_executeJob_body)

declare drainQueue.simps [simp del]

definition executeJob :: "env \<Rightarrow> addr \<Rightarrow> script \<Rightarrow> runner \<Rightarrow> runner" where
  "executeJob e a sc s =
     (if opens e a s then executeJob_body e a sc s
      else drainQueue e (executeJob_body e a sc s))"

definition enqueue :: "env \<Rightarrow> addr \<Rightarrow> script \<Rightarrow> runner \<Rightarrow> runner" where
  "enqueue e a sc s = drainQueue e (s\<lparr>queue := queue s @ [(a, sc)]\<rparr>)"

subsection \<open>The log sink\<close>

record log_state =
  log_size :: int
  log_truncated :: bool
  log_content :: bytes

text \<open>
  What \<open>writeLogChunk\<close> reads and writes for one stream: \<open>job[sizeKey]\<close>,
  \<open>job[truncatedKey]\<close> and the file behind the descriptor. \<open>writable\<close> says whether
  \<open>fs.writeSync\<close> succeeds on it; when it does not, the exception leaves \<open>writeLogChunk\<close>
  before the size and the flag are touched.
\<close>

definition writeLogChunk :: "int \<Rightarrow> bool \<Rightarrow> bytes \<Rightarrow> log_state \<Rightarrow> unit + log_state" where
  "writeLogChunk cap writable chunk l =
     (let current = log_size l in
      if current \<ge> cap then Inr (l\<lparr>log_truncated := True\<rparr>)
      else
        let allowed = cap - current;
            toWrite = take (nat allowed) chunk
        in if toWrite \<noteq> [] \<and> \<not> writable then Inl ()
           else
             let l1 = (if toWrite \<noteq> []
                       then l\<lparr>log_content := log_content l @ toWrite,
                              log_size := log_size l + int (length toWrite)\<rparr>
                       else l)
             in Inr (if length toWrite < length chunk then l1\<lparr>log_truncated := True\<rparr> else l1))"

definition log_of :: "stream \<Rightarrow> job \<Rightarrow> bytes option \<Rightarrow> log_state" where
  "log_of k j f =
     \<lparr>log_size = (case k of Stdout \<Rightarrow> stdoutSize j | Stderr \<Rightarrow> stderrSize j),
      log_truncated = (case k of Stdout \<Rightarrow> stdoutTruncated j | Stderr \<Rightarrow> stderrTruncated j),
      log_content = (case f of None \<Rightarrow> [] | Some c \<Rightarrow> c)\<rparr>"

definition set_log :: "stream \<Rightarrow> log_state \<Rightarrow> job \<Rightarrow> job" where
  "set_log k l j =
     (case k of
        Stdout \<Rightarrow> j\<lparr>stdoutSize := log_size l, stdoutTruncated := log_truncated l\<rparr>
      | Stderr \<Rightarrow> j\<lparr>stderrSize := log_size l, stderrTruncated := log_truncated l\<rparr>)"

definition stream_ref :: "stream \<Rightarrow> job \<Rightarrow> string" where
  "stream_ref k j = (case k of Stdout \<Rightarrow> stdoutRef j | Stderr \<Rightarrow> stderrRef j)"

definition stream_name :: "stream \<Rightarrow> string" where
  "stream_name k = (case k of Stdout \<Rightarrow> ''stdout'' | Stderr \<Rightarrow> ''stderr'')"

definition onData :: "env \<Rightarrow> addr \<Rightarrow> stream \<Rightarrow> bytes \<Rightarrow> runner \<Rightarrow> runner" where
  "onData e a k chunk s =
     (case execs s a of
        None \<Rightarrow> s
      | Some x \<Rightarrow>
          let x1 = (case k of
                      Stdout \<Rightarrow> x\<lparr>stdoutPreviewBuf :=
                        appendTailBuffer (stdoutPreviewBuf x) chunk (previewMaxBytes s)\<rparr>
                    | Stderr \<Rightarrow> x\<lparr>stderrPreviewBuf :=
                        appendTailBuffer (stderrPreviewBuf x) chunk (previewMaxBytes s)\<rparr>);
              p = logPath e s (stream_ref k (heap s ! a));
              fd = (case k of Stdout \<Rightarrow> stdoutFd x | Stderr \<Rightarrow> stderrFd x)
          in (case writeLogChunk (maxLogBytesPerStream s) (fd \<and> write_error e = None) chunk
                     (log_of k (heap s ! a) (files s p)) of
                Inr l \<Rightarrow>
                  (update_job a (set_log k l) s)
                    \<lparr>execs := (execs s)(a \<mapsto> x1),
                     files := (if log_content l = log_content (log_of k (heap s ! a) (files s p))
                               then files s else (files s)(p \<mapsto> log_content l))\<rparr>
              | Inl _ \<Rightarrow>
                  s\<lparr>execs := (execs s)(a \<mapsto> x1\<lparr>stderrPreviewBuf :=
                       appendTailBuffer (stderrPreviewBuf x1)
                         (utf8_encode e (CHR 0x0A # stream_name k @ '' log write error: '' @
                            (case write_error e of None \<Rightarrow> [] | Some m \<Rightarrow> m)))
                         (previewMaxBytes s)\<rparr>)\<rparr>))"

text \<open>
  \<open>onData\<close> is the \<open>data\<close> handler of \<open>child.stdout\<close> and of \<open>child.stderr\<close>: the chunk goes
  to the tail buffer, then to \<open>writeLogChunk\<close>, whose exception adds a line to the stderr
  tail instead. A descriptor that \<open>closeLogFds\<close> has set to \<open>null\<close> makes
  \<open>fs.writeSync\<close> throw as a failing write does.
\<close>

subsection \<open>Finishing a job\<close>

definition finishJob :: "env \<Rightarrow> addr \<Rightarrow> status \<Rightarrow> int \<Rightarrow> runner \<Rightarrow> runner" where
  "finishJob e a st c s =
     (case execs s a of
        None \<Rightarrow> s
      | Some x \<Rightarrow>
          if finished x then s
          else
            let x1 = x\<lparr>finished := True, timeoutHandle := False,
                       stdoutFd := False, stderrFd := False\<rparr>;
                s1 = s\<lparr>execs := (execs s)(a \<mapsto> x1)\<rparr>;
                s2 = update_job a
                       (\<lambda>j. j\<lparr>stdoutPreview := utf8_decode e (stdoutPreviewBuf x1),
                              stderrPreview := utf8_decode e (stderrPreviewBuf x1),
                              status := st, code := Some c, endedAt := Some (now e),
                              durationMs := Some (now e - startedMs x1)\<rparr>) s1;
                s3 = s2\<lparr>runningCount := runningCount s2 - 1\<rparr>
            in drainQueue e (persistJobs e s3))"

definition onError :: "env \<Rightarrow> addr \<Rightarrow> string \<Rightarrow> runner \<Rightarrow> runner" where
  "onError e a msg s =
     (case execs s a of
        None \<Rightarrow> s
      | Some x \<Rightarrow>
          finishJob e a FAILED (- 1)
            (s\<lparr>execs := (execs s)(a \<mapsto> x\<lparr>stderrPreviewBuf :=
                 appendTailBuffer (stderrPreviewBuf x) (utf8_encode e (CHR 0x0A # msg))
                   (previewMaxBytes s)\<rparr>)\<rparr>))"

definition onClose :: "env \<Rightarrow> addr \<Rightarrow> int option \<Rightarrow> string option \<Rightarrow> runner \<Rightarrow> runner" where
  "onClose e a exitCode signal s =
     (case execs s a of
        None \<Rightarrow> s
      | Some x \<Rightarrow>
          if timedOut x then finishJob e a TIMED_OUT (- 1) s
          else if cancelRequested (heap s ! a) then finishJob e a CANCELED (- 1) s
          else if signal \<noteq> None then finishJob e a FAILED (- 1) s
          else if exitCode = Some 0 then finishJob e a SUCCEEDED 0 s
          else finishJob e a FAILED (case exitCode of None \<Rightarrow> - 1 | Some n \<Rightarrow> n) s)"

text \<open>
  \<open>onClose\<close> is the \<open>close\<close> handler: \<open>exitCode\<close> and \<open>signal\<close> are its arguments \<open>code\<close> and
  \<open>signal\<close>, \<open>None\<close> for \<open>null\<close>.
\<close>

definition onTimeout :: "addr \<Rightarrow> runner \<Rightarrow> runner" where
  "onTimeout a s =
     (case execs s a of
        None \<Rightarrow> s
      | Some x \<Rightarrow>
          if timeoutHandle x
          then s\<lparr>execs := (execs s)(a \<mapsto> x\<lparr>timedOut := True, timeoutHandle := False\<rparr>)\<rparr>
          else s)"

text \<open>
  \<open>onTimeout\<close> is the timer's callback; it runs only while the timer is pending.
  \<open>terminateChildProcess\<close> signals the child and leaves the runner as it is: the child
  answers with a later \<open>close\<close>.
\<close>

subsection \<open>The runner's interface\<close>

record request =
  req_scriptId :: jsval
  req_args :: jsval
  req_mode :: jsval

datatype submit_result =
    Rejected err_code message
  | Accepted_async snapshot
  | Pending_sync addr

datatype 'a result = Ok 'a | Error err_code message

definition string_args :: "jsval \<Rightarrow> string list" where
  "string_args as =
     (case as of
        JArray vs \<Rightarrow> concat (map (\<lambda>v. case v of JString x \<Rightarrow> [x] | _ \<Rightarrow> []) vs)
      | _ \<Rightarrow> [])"

definition submitRun :: "env \<Rightarrow> request \<Rightarrow> runner \<Rightarrow> (exn + submit_result) \<times> runner" where
  "submitRun e r s =
     (let as = (if req_args r = JUndefined then JArray [] else req_args r) in
      case validateRequest e s (req_scriptId r) as of
        Inl x \<Rightarrow> (Inl x, s)
      | Inr (Invalid c m) \<Rightarrow> (Inr (Rejected c m), s)
      | Inr (Valid sc) \<Rightarrow>
          let resolvedMode = resolveMode s sc (req_mode r);
              (a, s1) = createJob e (script_id sc) (string_args as) resolvedMode s;
              s2 = enqueue e a sc s1
          in if resolvedMode = ''async''
             then (Inr (Accepted_async (serializeJob (heap s2 ! a))), s2)
             else (Inr (Pending_sync a), s2))"

text \<open>
  In sync mode the source returns a promise that the job's completion resolves;
  \<open>Pending_sync\<close> names the job waited for.
\<close>

definition getJob :: "string \<Rightarrow> runner \<Rightarrow> snapshot option" where
  "getJob jid s =
     (case map_of (jobs s) jid of
        None \<Rightarrow> None
      | Some a \<Rightarrow> Some (serializeJob (heap s ! a)))"

definition cancelJob :: "env \<Rightarrow> string \<Rightarrow> runner \<Rightarrow> snapshot result \<times> runner" where
  "cancelJob e jid s =
     (case map_of (jobs s) jid of
        None \<Rightarrow> (Error JOB_NOT_FOUND (Job_not_found jid), s)
      | Some a \<Rightarrow>
          if status (heap s ! a) = SUCCEEDED \<or> status (heap s ! a) = FAILED \<or>
             status (heap s ! a) = TIMED_OUT \<or> status (heap s ! a) = CANCELED
          then (Ok (serializeJob (heap s ! a)), s)
          else
            let s1 = update_job a (\<lambda>j. j\<lparr>cancelRequested := True\<rparr>) s;
                s2 = (if status (heap s1 ! a) = RUNNING \<and> execs s1 a \<noteq> None then s1
                      else if status (heap s1 ! a) = QUEUED
                      then persistJobs e
                             (update_job a
                                (\<lambda>j. j\<lparr>status := CANCELED, code := Some (- 1),
                                       endedAt := Some (now e), durationMs := Some 0\<rparr>) s1)
                      else s1)
            in (Ok (serializeJob (heap s2 ! a)), s2))"

record log_page =
  pg_jobId :: string
  pg_stream :: string
  pg_offset :: int
  pg_nextOffset :: int
  pg_totalSize :: int
  pg_truncated :: bool
  pg_data :: string

definition getJobLogs :: "env \<Rightarrow> string \<Rightarrow> jsval \<Rightarrow> jsval \<Rightarrow> jsval \<Rightarrow> runner \<Rightarrow> log_page result" where
  "getJobLogs e jid stream0 offset0 limit0 s =
     (let stream = (if stream0 = JUndefined then JString ''stdout'' else stream0);
          offset = (if offset0 = JUndefined then JInt 0 else offset0);
          limit = (if limit0 = JUndefined then JInt 65536 else limit0)
      in case map_of (jobs s) jid of
        None \<Rightarrow> Error JOB_NOT_FOUND (Job_not_found jid)
      | Some a \<Rightarrow>
          if stream \<noteq> JString ''stdout'' \<and> stream \<noteq> JString ''stderr''
          then Error INVALID_ARGS Stream_invalid
          else
            let j = heap s ! a;
                safeOffset = (case offset of JInt n \<Rightarrow> if n \<ge> 0 then n else 0 | _ \<Rightarrow> 0);
                safeLimitRaw = (case limit of JInt n \<Rightarrow> if n > 0 then n else 65536 | _ \<Rightarrow> 65536);
                safeLimit = min safeLimitRaw (1024 * 1024);
                ref = (if stream = JString ''stdout'' then stdoutRef j else stderrRef j);
                name = (if stream = JString ''stdout'' then ''stdout'' else ''stderr'');
                trunc = (if stream = JString ''stdout'' then stdoutTruncated j else stderrTruncated j);
                empty_page = \<lparr>pg_jobId = jid, pg_stream = name, pg_offset = safeOffset,
                              pg_nextOffset = safeOffset, pg_totalSize = 0,
                              pg_truncated = trunc, pg_data = []\<rparr>
            in if ref = [] then Ok empty_page
               else (case files s (logPath e s ref) of
                       None \<Rightarrow> Ok empty_page
                     | Some content \<Rightarrow>
                         let totalSize = int (length content) in
                         if safeOffset \<ge> totalSize
                         then Ok (empty_page\<lparr>pg_totalSize := totalSize\<rparr>)
                         else
                           let toRead = min safeLimit (totalSize - safeOffset);
                               buffer = take (nat toRead) (drop (nat safeOffset) content);
                               bytesRead = int (length buffer)
                           in Ok \<lparr>pg_jobId = jid, pg_stream = name, pg_offset = safeOffset,
                                  pg_nextOffset = safeOffset + bytesRead,
                                  pg_totalSize = totalSize, pg_truncated = trunc,
                                  pg_data = utf8_decode e buffer\<rparr>))"

text \<open>
  The three parameters after the job id are the fields \<open>stream\<close>, \<open>offset\<close> and \<open>limit\<close> of the
  options object, \<open>JUndefined\<close> when a field is missing (the destructuring then puts the
  default in its place). \<open>fs.readSync\<close> reads the bytes of the file from \<open>safeOffset\<close> on,
  \<open>toRead\<close> of them at most.
\<close>

subsection \<open>Steps of the runner\<close>

datatype event =
    Submit request
  | Cancel string
  | Data addr stream bytes
  | ChildError addr string
  | Close addr "int option" "string option"
  | Timeout addr

fun step :: "env \<Rightarrow> event \<Rightarrow> runner \<Rightarrow> runner" where
  "step e (Submit r) s = snd (submitRun e r s)"
| "step e (Cancel jid) s = snd (cancelJob e jid s)"
| "step e (Data a k chunk) s = onData e a k chunk s"
| "step e (ChildError a msg) s = onError e a msg s"
| "step e (Close a exitCode signal) s = onClose e a exitCode signal s"
| "step e (Timeout a) s = onTimeout a s"

inductive reaches :: "runner \<Rightarrow> runner \<Rightarrow> bool" where
  reaches_refl: "reaches s s"
| reaches_step: "reaches s t \<Longrightarrow> reaches s (step e ev t)"

subsection \<open>Invariants of the scheduler\<close>

text \<open>
  \<open>count_running\<close> counts the job objects whose status is \<open>running\<close>. A runner is well
  formed (\<open>wf\<close>) when the queued jobs are distinct objects that are not running and have no
  child, every child belongs to a job of the heap, a job is running exactly when it has a
  child that has not finished, and \<open>runningCount\<close> is the number of running jobs. It is
  \<open>bounded\<close> when \<open>runningCount\<close> is at most \<open>maxConcurrent\<close>.
\<close>

definition count_running :: "job list \<Rightarrow> int" where
  "count_running js = int (length (filter (\<lambda>j. status j = RUNNING) js))"

definition queue_ok :: "runner \<Rightarrow> bool" where
  "queue_ok s =
     (distinct (map fst (queue s)) \<and>
      (\<forall>p \<in> set (queue s). fst p < length (heap s) \<and> status (heap s ! fst p) \<noteq> RUNNING \<and>
           execs s (fst p) = None))"

definition execs_ok :: "runner \<Rightarrow> bool" where
  "execs_ok s =
     ((\<forall>a x. execs s a = Some x \<longrightarrow> a < length (heap s)) \<and>
      (\<forall>a. a < length (heap s) \<longrightarrow>
         (status (heap s ! a) = RUNNING) = (\<exists>x. execs s a = Some x \<and> \<not> finished x)))"

definition count_ok :: "runner \<Rightarrow> bool" where
  "count_ok s = (runningCount s = count_running (heap s))"

definition wf :: "runner \<Rightarrow> bool" where
  "wf s = (queue_ok s \<and> execs_ok s \<and> count_ok s)"

definition bounded :: "runner \<Rightarrow> bool" where
  "bounded s = (runningCount s \<le> maxConcurrent s)"

text \<open>
  The job map is sound (\<open>jobs_ok\<close>) when its addresses are distinct objects of the heap.
  \<open>frame s t\<close>: \<open>t\<close> has the job map, the number of objects and the ceiling of \<open>s\<close>.
\<close>

definition jobs_ok :: "runner \<Rightarrow> bool" where
  "jobs_ok s = (distinct (map snd (jobs s)) \<and> (\<forall>p \<in> set (jobs s). snd p < length (heap s)))"

definition frame :: "runner \<Rightarrow> runner \<Rightarrow> bool" where
  "frame s t = (jobs t = jobs s \<and> length (heap t) = length (heap s) \<and>
                maxConcurrent t = maxConcurrent s)"

subsection \<open>Vocabulary of the properties\<close>

text \<open>
  What the properties below say about \<open>getJobLogs\<close>, in the words of the interface: a
  stream parameter is valid when it is missing or names one of the two streams; the log
  file of a stream is the file its reference names under \<open>logsDir\<close>, if the job has a
  reference and the file exists.
\<close>

definition valid_stream :: "jsval \<Rightarrow> bool" where
  "valid_stream v = (v = JUndefined \<or> v = JString ''stdout'' \<or> v = JString ''stderr'')"

definition stream_flag :: "jsval \<Rightarrow> job \<Rightarrow> bool" where
  "stream_flag v j = (if v = JString ''stderr'' then stderrTruncated j else stdoutTruncated j)"

definition stream_file :: "env \<Rightarrow> runner \<Rightarrow> jsval \<Rightarrow> job \<Rightarrow> bytes option" where
  "stream_file e s v j =
     (let ref = (if v = JString ''stderr'' then stderrRef j else stdoutRef j)
      in if ref = [] then None else files s (logPath e s ref))"

definition claimed_offset :: "jsval \<Rightarrow> int" where
  "claimed_offset v = (case v of JInt n \<Rightarrow> if n < 0 then 0 else n | _ \<Rightarrow> 0)"

definition claimed_limit :: "jsval \<Rightarrow> int" where
  "claimed_limit v = min (case v of JInt n \<Rightarrow> if n \<le> 0 then 65536 else n | _ \<Rightarrow> 65536) 1048576"

text \<open>
  The entries of the job map whose job is running, and whether the timer of a job has
  fired (the variable \<open>timedOut\<close> of its \<open>executeJob\<close>).
\<close>

definition running_jobs :: "runner \<Rightarrow> (string \<times> addr) list" where
  "running_jobs s = filter (\<lambda>p. status (heap s ! snd p) = RUNNING) (jobs s)"

definition timeout_fired :: "runner \<Rightarrow> addr \<Rightarrow> bool" where
  "timeout_fired s a = (case execs s a of None \<Rightarrow> False | Some x \<Rightarrow> timedOut x)"

text \<open>
  One stream of one job, seen from its \<open>data\<close> handler: each chunk comes with the answer of
  the file system to the write it leads to. \<open>log_step\<close> is the handler's \<open>try\<close> around
  \<open>writeLogChunk\<close>, whose \<open>catch\<close> leaves size, flag and file as they are; \<open>feed\<close> runs
  the chunks through it from the state \<open>createJob\<close> and \<open>executeJob\<close> set up (size \<open>0\<close>,
  flag \<open>false\<close>, an empty file); \<open>attempted\<close> is the number of bytes the producer wrote.
\<close>

definition log_step :: "int \<Rightarrow> log_state \<Rightarrow> bytes \<times> bool \<Rightarrow> log_state" where
  "log_step cap l cw =
     (case writeLogChunk cap (snd cw) (fst cw) l of Inr l1 \<Rightarrow> l1 | Inl u \<Rightarrow> l)"

definition log_start :: log_state where
  "log_start = \<lparr>log_size = 0, log_truncated = False, log_content = []\<rparr>"

definition feed :: "int \<Rightarrow> (bytes \<times> bool) list \<Rightarrow> log_state" where
  "feed cap evs = foldl (log_step cap) log_start evs"

definition attempted :: "(bytes \<times> bool) list \<Rightarrow> int" where
  "attempted evs = (\<Sum>cw\<leftarrow>evs. int (length (fst cw)))"

text \<open>
  A request, in the words of its constraints: the script the request names, the arguments
  that count (a missing \<open>args\<close> is the empty array), and what violates a script's declared
  constraints.
\<close>

definition lookup_script :: "runner \<Rightarrow> jsval \<Rightarrow> script option" where
  "lookup_script s sid = (case sid of JString k \<Rightarrow> map_of (scriptMap s) k | _ \<Rightarrow> None)"

definition effective_args :: "request \<Rightarrow> jsval" where
  "effective_args r = (if req_args r = JUndefined then JArray [] else req_args r)"

definition shape_violates :: "script \<Rightarrow> jsval \<Rightarrow> bool" where
  "shape_violates sc as =
     (case as of JArray vs \<Rightarrow> int (length vs) > maxItems sc | _ \<Rightarrow> True)"

definition item_violates :: "(string \<Rightarrow> bool) \<Rightarrow> script \<Rightarrow> jsval \<Rightarrow> bool" where
  "item_violates test sc v =
     (case v of JString x \<Rightarrow> int (length x) > itemMaxLength sc \<or> \<not> test x | _ \<Rightarrow> True)"

definition items_violate :: "(string \<Rightarrow> bool) \<Rightarrow> script \<Rightarrow> jsval \<Rightarrow> bool" where
  "items_violate test sc as =
     (case as of JArray vs \<Rightarrow> list_ex (item_violates test sc) vs | _ \<Rightarrow> False)"

text \<open>
  The job object the map holds under an id, and the ids of the entries of a persisted
  array that are records with a \<open>jobId\<close>.
\<close>

definition loaded :: "runner \<Rightarrow> string \<Rightarrow> job option" where
  "loaded s k = (case map_of (jobs s) k of None \<Rightarrow> None | Some a \<Rightarrow> Some (heap s ! a))"

definition entry_ids :: "json_entry list \<Rightarrow> string list" where
  "entry_ids es =
     concat (map (\<lambda>en. case en of
                          Non_object \<Rightarrow> []
                        | Object r \<Rightarrow> if jobId r = [] then [] else [jobId r]) es)"

subsection \<open>An example runner\<close>

text \<open>
  A small environment and a runner with one finished job, on which the properties are
  evaluated. Its regular expression engine knows the patterns the examples use.
\<close>

definition demo_regexp :: "string \<Rightarrow> (string \<Rightarrow> bool) option" where
  "demo_regexp p =
     (if p = ''('' then None
      else if p = ''^[a-z]+$''
      then Some (\<lambda>v. v \<noteq> [] \<and> list_all (\<lambda>c. c \<in> set ''abcdefghijklmnopqrstuvwxyz'') v)
      else Some (\<lambda>v. True))"

definition demo_env :: env where
  "demo_env =
     \<lparr>now = 1000, regexp = demo_regexp, path_join = (\<lambda>d r. d @ ''/'' @ r),
      path_dirname = (\<lambda>p. ''.''), utf8_decode = (\<lambda>b. b), utf8_encode = (\<lambda>x. x),
      open_ok = (\<lambda>p. True), write_error = None, persist_ok = True\<rparr>"

definition demo_job :: job where
  "demo_job =
     \<lparr>jobId = ''j1'', scriptId = ''echo'', status = SUCCEEDED, code = Some 0,
      startedAt = Some 10, endedAt = Some 20, durationMs = Some 10,
      createdAt = Some 5, mode = ''async'',
      stdoutRef = ''j1.stdout.log'', stderrRef = ''j1.stderr.log'',
      stdoutSize = 5, stderrSize = 0,
      stdoutTruncated = False, stderrTruncated = False,
      stdoutPreview = ''hello'', stderrPreview = [],
      args = [], cancelRequested = False\<rparr>"

definition demo_runner :: runner where
  "demo_runner =
     \<lparr>scriptMap = [], maxConcurrent = 1, defaultMode = ''sync'',
      jobStoreFile = ''jobs.json'', logsDir = ''logs'',
      maxLogBytesPerStream = 1024, previewMaxBytes = 16,
      runningCount = 0, queue = [], seq = 1,
      jobs = [(''j1'', 0)], heap = [demo_job], execs = (\<lambda>a. None),
      files = [''logs/j1.stdout.log'' \<mapsto> ''hello''], store = No_file\<rparr>"

text \<open>
  A runner with one slot and a script \<open>slow\<close>: \<open>demo_one\<close> after a first submission (the
  job runs), \<open>demo_two\<close> after a second (it waits), \<open>demo_three\<close> after the second job is
  cancelled and \<open>demo_four\<close> after the child of the first has exited.
\<close>

definition demo_script :: script where
  "demo_script =
     \<lparr>script_id = ''slow'', path = ''/opt/slow.sh'', script_mode = ''async'', timeoutSec = 1,
      maxItems = 2, itemPattern = ''^[a-z]+$'', itemMaxLength = 10\<rparr>"

definition demo_config :: config where
  "demo_config =
     \<lparr>cfg_runner =
        \<lparr>cfg_maxConcurrent = 1, cfg_defaultMode = ''sync'', cfg_jobStoreFile = ''jobs.json'',
         cfg_logsDir = ''logs'', cfg_maxLogBytesPerStream = Some 4,
         cfg_previewMaxBytes = Some 16\<rparr>,
      cfg_scripts = [demo_script]\<rparr>"

definition demo_request :: request where
  "demo_request = \<lparr>req_scriptId = JString ''slow'', req_args = JArray [JString ''a''],
                    req_mode = JUndefined\<rparr>"

definition demo_start :: runner where
  "demo_start = ScriptRunner demo_env demo_config No_file (\<lambda>p. None)"

definition demo_one :: runner where
  "demo_one = step demo_env (Submit demo_request) demo_start"

definition demo_two :: runner where
  "demo_two = step (demo_env\<lparr>now := 2000\<rparr>) (Submit demo_request) demo_one"

definition demo_job1 :: job where
  "demo_job1 =
     \<lparr>jobId = ''job_1000_1'', scriptId = ''slow'', status = RUNNING,
      code = None, startedAt = Some 1000, endedAt = None, durationMs = None,
      createdAt = Some 1000, mode = ''async'',
      stdoutRef = ''job_1000_1.stdout.log'',
      stderrRef = ''job_1000_1.stderr.log'', stdoutSize = 0, stderrSize = 0,
      stdoutTruncated = False, stderrTruncated = False, stdoutPreview = [],
      stderrPreview = [], args = [''a''], cancelRequested = False\<rparr>"

definition demo_job2 :: job where
  "demo_job2 =
     \<lparr>jobId = ''job_2000_2'', scriptId = ''slow'', status = QUEUED,
      code = None, startedAt = None, endedAt = None, durationMs = None,
      createdAt = Some 2000, mode = ''async'',
      stdoutRef = ''job_2000_2.stdout.log'',
      stderrRef = ''job_2000_2.stderr.log'', stdoutSize = 0, stderrSize = 0,
      stdoutTruncated = False, stderrTruncated = False, stdoutPreview = [],
      stderrPreview = [], args = [''a''], cancelRequested = False\<rparr>"

definition demo_ctx1 :: exec_ctx where
  "demo_ctx1 =
     \<lparr>startedMs = 1000, stdoutFd = True, stderrFd = True,
      stdoutPreviewBuf = [], stderrPreviewBuf = [], timeoutHandle = True,
      timedOut = False, finished = False\<rparr>"

definition demo_three :: runner where
  "demo_three = step (demo_env\<lparr>now := 3000\<rparr>) (Cancel ''job_2000_2'') demo_two"

definition demo_four :: runner where
  "demo_four = step (demo_env\<lparr>now := 4000\<rparr>) (Close 0 (Some 0) None) demo_three"

text \<open>
  The same runner configured with a log cap of \<open>0\<close>: after a submission, and after the
  child has written two bytes to its standard output.
\<close>

definition zero_cap_config :: config where
  "zero_cap_config =
     demo_config\<lparr>cfg_runner := (cfg_runner demo_config)\<lparr>cfg_maxLogBytesPerStream := Some 0\<rparr>\<rparr>"

definition zero_start :: runner where
  "zero_start = ScriptRunner demo_env zero_cap_config No_file (\<lambda>p. None)"

definition zero_one :: runner where
  "zero_one = step demo_env (Submit demo_request) zero_start"

definition zero_data :: runner where
  "zero_data = step demo_env (Data 0 Stdout ''hi'') zero_one"

text \<open>
  A request with a slash in its argument, which the pattern of \<open>slow\<close> excludes; the
  runner of a configuration whose pattern is not a regular expression, with a request
  whose argument is a number; and requests that name no script: by a string, by the
  object \<open>JSON.parse\<close> builds from \<open>{"toString": null}\<close>, with no array of arguments, and
  with three arguments where two are allowed.
\<close>

definition slash_request :: request where
  "slash_request = \<lparr>req_scriptId = JString ''slow'', req_args = JArray [JString ''bad/slash''],
                     req_mode = JUndefined\<rparr>"

definition bad_pattern_config :: config where
  "bad_pattern_config = demo_config\<lparr>cfg_scripts := [demo_script\<lparr>itemPattern := ''(''\<rparr>]\<rparr>"

definition bad_pattern_start :: runner where
  "bad_pattern_start = ScriptRunner demo_env bad_pattern_config No_file (\<lambda>p. None)"

definition number_request :: request where
  "number_request = \<lparr>req_scriptId = JString ''slow'', req_args = JArray [JInt 5],
                      req_mode = JUndefined\<rparr>"

definition unknown_request :: request where
  "unknown_request = \<lparr>req_scriptId = JString ''fast'', req_args = JArray [],
                       req_mode = JUndefined\<rparr>"

definition object_request :: request where
  "object_request = \<lparr>req_scriptId = JObject [(''toString'', JNull)], req_args = JArray [],
                      req_mode = JUndefined\<rparr>"

definition null_args_request :: request where
  "null_args_request = \<lparr>req_scriptId = JString ''slow'', req_args = JNull,
                         req_mode = JUndefined\<rparr>"

definition long_request :: request where
  "long_request = \<lparr>req_scriptId = JString ''slow'',
                    req_args = JArray [JString ''a'', JString ''b'', JString ''c''],
                    req_mode = JUndefined\<rparr>"

text \<open>
  A persisted array: an entry that is no object, the record of a job that was running, and
  a record without a \<open>jobId\<close>.
\<close>

definition demo_disk :: "json_entry list" where
  "demo_disk = [Non_object, Object (serializeJob demo_job1),
                Object ((serializeJob demo_job2)\<lparr>jobId := []\<rparr>)]"

section \<open>Properties\<close>

subsection \<open>Paged reading of a log\<close>

lemma take_min_drop:
  assumes "0 \<le> off"
  shows "take (nat (min L (int (length c) - off))) (drop (nat off) c) = take (nat L) (drop (nat off) c)"
proof (cases "L \<le> int (length c) - off")
  case True
  then show ?thesis by (simp add: min_def)
next
  case False
  with assms have "length (drop (nat off) c) \<le> nat (int (length c) - off)"
    and "length (drop (nat off) c) \<le> nat L"
    by auto
  with False show ?thesis by (simp add: min_def)
qed

lemma safeOffset_claimed:
  "(case (if v = JUndefined then JInt 0 else v) of JInt n \<Rightarrow> if n \<ge> 0 then n else 0 | _ \<Rightarrow> 0)
     = claimed_offset v"
  by (cases v) (simp_all add: claimed_offset_def)

lemma safeLimit_claimed:
  "min (case (if v = JUndefined then JInt 65536 else v) of
          JInt n \<Rightarrow> if n > 0 then n else 65536 | _ \<Rightarrow> 65536) (1024 * 1024)
     = claimed_limit v"
  by (cases v) (simp_all add: claimed_limit_def)

lemma claimed_offset_nonneg: "0 \<le> claimed_offset v"
  by (cases v) (simp_all add: claimed_offset_def)

lemma claimed_limit_pos: "0 < claimed_limit v"
  by (cases v) (simp_all add: claimed_limit_def)

lemma claimed_limit_le: "claimed_limit v \<le> 1048576"
  by (simp add: claimed_limit_def)

lemma claimed_offset_idem: "claimed_offset (JInt (claimed_offset v)) = claimed_offset v"
  using claimed_offset_nonneg [of v] by (simp add: claimed_offset_def)

lemma claimed_limit_idem: "claimed_limit (JInt (claimed_limit v)) = claimed_limit v"
  by (cases v) (auto simp: claimed_limit_def min_def)

lemma getJobLogs_known:
  assumes "map_of (jobs s) jid = Some a"
    and "valid_stream stream"
  shows "getJobLogs e jid stream offset limit s =
     (let j = heap s ! a;
          off = claimed_offset offset;
          name = (if stream = JString ''stderr'' then ''stderr'' else ''stdout'');
          empty_page = \<lparr>pg_jobId = jid, pg_stream = name, pg_offset = off,
                              pg_nextOffset = off, pg_totalSize = 0,
                              pg_truncated = stream_flag stream j, pg_data = []\<rparr>
      in case stream_file e s stream j of
           None \<Rightarrow> Ok empty_page
         | Some content \<Rightarrow>
             if int (length content) \<le> off
             then Ok (empty_page\<lparr>pg_totalSize := int (length content)\<rparr>)
             else
               let buffer = take (nat (claimed_limit limit)) (drop (nat off) content)
               in Ok \<lparr>pg_jobId = jid, pg_stream = name, pg_offset = off,
                      pg_nextOffset = off + int (length buffer),
                      pg_totalSize = int (length content),
                      pg_truncated = stream_flag stream j,
                      pg_data = utf8_decode e buffer\<rparr>)"
proof -
  from assms(2) consider "stream = JUndefined" | "stream = JString ''stdout''"
    | "stream = JString ''stderr''"
    by (auto simp: valid_stream_def)
  then show ?thesis
  proof cases
    case 1
    with assms(1) show ?thesis
      unfolding getJobLogs_def Let_def safeOffset_claimed safeLimit_claimed
      by (simp add: take_min_drop claimed_offset_nonneg stream_flag_def stream_file_def
            split: option.split)
  next
    case 2
    with assms(1) show ?thesis
      unfolding getJobLogs_def Let_def safeOffset_claimed safeLimit_claimed
      by (simp add: take_min_drop claimed_offset_nonneg stream_flag_def stream_file_def
            split: option.split)
  next
    case 3
    with assms(1) show ?thesis
      unfolding getJobLogs_def Let_def safeOffset_claimed safeLimit_claimed
      by (simp add: take_min_drop claimed_offset_nonneg stream_flag_def stream_file_def
            split: option.split)
  qed
qed

lemma getJobLogs_error:
  "getJobLogs e jid stream offset limit s = Error c m \<longleftrightarrow>
     (map_of (jobs s) jid = None \<and> c = JOB_NOT_FOUND \<and> m = Job_not_found jid) \<or>
     (map_of (jobs s) jid \<noteq> None \<and> \<not> valid_stream stream \<and> c = INVALID_ARGS \<and> m = Stream_invalid)"
proof (cases "map_of (jobs s) jid")
  case None
  then show ?thesis by (auto simp: getJobLogs_def Let_def)
next
  case (Some a)
  show ?thesis
  proof (cases "valid_stream stream")
    case True
    with Some show ?thesis
      by (simp add: getJobLogs_known Let_def split: option.split)
  next
    case False
    with Some show ?thesis
      by (auto simp: getJobLogs_def Let_def valid_stream_def)
  qed
qed

text \<open>
  C6. For a known job, a valid stream, an offset \<open>off \<ge> 0\<close> and a limit \<open>lim > 0\<close>,
  \<open>getJobLogs\<close> returns a page: its \<open>totalSize\<close> is the size of the log file, its data the
  decoding of the bytes of the file from \<open>off\<close> on, \<open>min lim 1 MiB\<close> of them at most, and
  \<open>nextOffset\<close> is \<open>off\<close> plus the number of bytes read; at or past the end of the file the
  data is empty and \<open>nextOffset = off\<close>; without a log file the data is empty and
  \<open>totalSize = 0\<close>.
\<close>

theorem getJobLogs_page:
  assumes known: "map_of (jobs s) jid = Some a"
    and vs: "valid_stream stream"
    and off: "0 \<le> off"
    and lim: "0 < lim"
  shows "\<exists>pg. getJobLogs e jid stream (JInt off) (JInt lim) s = Ok pg \<and>
           pg_offset pg = off \<and>
           pg_truncated pg = stream_flag stream (heap s ! a) \<and>
           (case stream_file e s stream (heap s ! a) of
              None \<Rightarrow> pg_data pg = [] \<and> pg_totalSize pg = 0 \<and> pg_nextOffset pg = off
            | Some content \<Rightarrow>
                pg_totalSize pg = int (length content) \<and>
                (if int (length content) \<le> off
                 then pg_data pg = [] \<and> pg_nextOffset pg = off
                 else pg_data pg =
                        utf8_decode e (take (nat (min lim (1024 * 1024))) (drop (nat off) content)) \<and>
                      pg_nextOffset pg =
                        off + int (length (take (nat (min lim (1024 * 1024))) (drop (nat off) content)))))"
proof -
  have o: "claimed_offset (JInt off) = off"
    using off by (simp add: claimed_offset_def)
  have l: "claimed_limit (JInt lim) = min lim (1024 * 1024)"
    using lim by (simp add: claimed_limit_def)
  show ?thesis
    by (simp add: getJobLogs_known [OF known vs] o l Let_def split: option.split)
qed

text \<open>
  C10. For a known job and a valid stream \<open>getJobLogs\<close> returns a page whatever the paging
  parameters are: an offset that is not a non-negative integer counts as \<open>0\<close>, a limit that
  is not a positive integer as \<open>65536\<close>, and no more than 1 MiB is read. An error is returned
  only for an unknown job (\<open>JOB_NOT_FOUND\<close>) or, the job known, for a stream that is neither
  \<open>stdout\<close> nor \<open>stderr\<close> (\<open>INVALID_ARGS\<close>).
\<close>

theorem getJobLogs_paging:
  "(\<forall>a. map_of (jobs s) jid = Some a \<and> valid_stream stream \<longrightarrow>
      (\<exists>pg. getJobLogs e jid stream offset limit s = Ok pg \<and>
            pg_offset pg = claimed_offset offset \<and>
            pg_offset pg \<le> pg_nextOffset pg \<and>
            pg_nextOffset pg - pg_offset pg \<le> claimed_limit limit) \<and>
      getJobLogs e jid stream offset limit s =
        getJobLogs e jid stream (JInt (claimed_offset offset)) (JInt (claimed_limit limit)) s) \<and>
   (\<forall>c m. getJobLogs e jid stream offset limit s = Error c m \<longrightarrow>
      (map_of (jobs s) jid = None \<and> c = JOB_NOT_FOUND) \<or>
      (map_of (jobs s) jid \<noteq> None \<and> \<not> valid_stream stream \<and> c = INVALID_ARGS))"
proof (intro conjI allI impI)
  fix a
  assume h: "map_of (jobs s) jid = Some a \<and> valid_stream stream"
  then have known: "map_of (jobs s) jid = Some a" and vs: "valid_stream stream"
    by simp_all
  have le: "int (min n (nat (claimed_limit limit))) \<le> claimed_limit limit" for n
    using claimed_limit_pos [of limit] by linarith
  show "\<exists>pg. getJobLogs e jid stream offset limit s = Ok pg \<and>
            pg_offset pg = claimed_offset offset \<and>
            pg_offset pg \<le> pg_nextOffset pg \<and>
            pg_nextOffset pg - pg_offset pg \<le> claimed_limit limit"
  proof (cases "stream_file e s stream (heap s ! a)")
    case None
    then show ?thesis
      using claimed_limit_pos [of limit]
      by (simp add: getJobLogs_known [OF known vs] Let_def)
  next
    case (Some content)
    then show ?thesis
      using claimed_limit_pos [of limit] le
      by (simp add: getJobLogs_known [OF known vs] Let_def)
  qed
  show "getJobLogs e jid stream offset limit s =
        getJobLogs e jid stream (JInt (claimed_offset offset)) (JInt (claimed_limit limit)) s"
    by (simp only: getJobLogs_known [OF known vs] claimed_offset_idem claimed_limit_idem)
next
  fix c m
  assume "getJobLogs e jid stream offset limit s = Error c m"
  then show "(map_of (jobs s) jid = None \<and> c = JOB_NOT_FOUND) \<or>
      (map_of (jobs s) jid \<noteq> None \<and> \<not> valid_stream stream \<and> c = INVALID_ARGS)"
    by (auto simp: getJobLogs_error)
qed

theorem getJobLogs_page_witness:
  "map_of (jobs demo_runner) ''j1'' = Some 0 \<and> valid_stream (JString ''stdout'') \<and>
   (0::int) \<le> 1 \<and> (0::int) < 3 \<and>
   (\<exists>pg. getJobLogs demo_env ''j1'' (JString ''stdout'') (JInt 1) (JInt 3) demo_runner = Ok pg \<and>
      pg_offset pg = 1 \<and> pg_totalSize pg = 5 \<and> pg_data pg = ''ell'' \<and> pg_nextOffset pg = 4)"
proof -
  have known: "map_of (jobs demo_runner) ''j1'' = Some 0"
    by (simp add: demo_runner_def)
  have vs: "valid_stream (JString ''stdout'')"
    by (simp add: valid_stream_def)
  have fl: "stream_file demo_env demo_runner (JString ''stdout'') (heap demo_runner ! 0) = Some ''hello''"
    by (simp add: stream_file_def demo_runner_def demo_job_def logPath_def demo_env_def)
  have dec: "utf8_decode demo_env = (\<lambda>b. b)"
    by (simp add: demo_env_def)
  from getJobLogs_page [OF known vs, of 1 3 demo_env]
  have "\<exists>pg. getJobLogs demo_env ''j1'' (JString ''stdout'') (JInt 1) (JInt 3) demo_runner = Ok pg \<and>
      pg_offset pg = 1 \<and> pg_totalSize pg = 5 \<and> pg_data pg = ''ell'' \<and> pg_nextOffset pg = 4"
    by (auto simp add: fl dec)
  with known vs show ?thesis by simp
qed

theorem getJobLogs_paging_witness:
  "map_of (jobs demo_runner) ''j1'' = Some 0 \<and> valid_stream JUndefined \<and>
   getJobLogs demo_env ''j1'' JUndefined (JInt (- 7)) JNonInt demo_runner =
     getJobLogs demo_env ''j1'' JUndefined (JInt 0) (JInt 65536) demo_runner \<and>
   (\<exists>pg. getJobLogs demo_env ''j1'' JUndefined (JInt (- 7)) JNonInt demo_runner = Ok pg)"
proof -
  have known: "map_of (jobs demo_runner) ''j1'' = Some 0"
    by (simp add: demo_runner_def)
  have vs: "valid_stream JUndefined"
    by (simp add: valid_stream_def)
  have o: "claimed_offset (JInt (- 7)) = 0" and l: "claimed_limit JNonInt = 65536"
    by (simp_all add: claimed_offset_def claimed_limit_def)
  from known vs
    getJobLogs_paging [of demo_runner "''j1''" JUndefined demo_env "JInt (- 7)" JNonInt]
  have "getJobLogs demo_env ''j1'' JUndefined (JInt (- 7)) JNonInt demo_runner =
          getJobLogs demo_env ''j1'' JUndefined (JInt 0) (JInt 65536) demo_runner \<and>
        (\<exists>pg. getJobLogs demo_env ''j1'' JUndefined (JInt (- 7)) JNonInt demo_runner = Ok pg)"
    unfolding o l by blast
  with known vs show ?thesis by blast
qed

subsection \<open>The scheduler's invariants hold in every reachable state\<close>

lemma count_running_update:
  "a < length js \<Longrightarrow>
   count_running (js[a := j]) =
     count_running js - (if status (js ! a) = RUNNING then 1 else 0)
                      + (if status j = RUNNING then 1 else 0)"
proof (induction js arbitrary: a)
  case Nil
  then show ?case by simp
next
  case (Cons x xs)
  show ?case
  proof (cases a)
    case 0
    then show ?thesis by (simp add: count_running_def)
  next
    case (Suc b)
    with Cons.prems have "b < length xs" by simp
    from Cons.IH [OF this] Suc show ?thesis
      by (auto simp: count_running_def split: if_splits)
  qed
qed

lemma count_running_append: 
  "count_running (js @ [j]) = count_running js + (if status j = RUNNING then 1 else 0)"
  by (simp add: count_running_def)

lemma persistJobs_fields:
  "heap (persistJobs e s) = heap s"
  "execs (persistJobs e s) = execs s"
  "queue (persistJobs e s) = queue s"
  "jobs (persistJobs e s) = jobs s"
  "runningCount (persistJobs e s) = runningCount s"
  "maxConcurrent (persistJobs e s) = maxConcurrent s"
  "files (persistJobs e s) = files s"
  "logsDir (persistJobs e s) = logsDir s"
  by (simp_all add: persistJobs_def)

lemma update_job_fields:
  "heap (update_job a f s) = (heap s)[a := f (heap s ! a)]"
  "execs (update_job a f s) = execs s"
  "queue (update_job a f s) = queue s"
  "jobs (update_job a f s) = jobs s"
  "runningCount (update_job a f s) = runningCount s"
  "maxConcurrent (update_job a f s) = maxConcurrent s"
  "files (update_job a f s) = files s"
  "logsDir (update_job a f s) = logsDir s"
  by (simp_all add: update_job_def)

text \<open>Changing a job that is not running into one that is not running.\<close>

lemma wf_update_idle:
  assumes "wf s" and "status (heap s ! a) \<noteq> RUNNING" and "status (f (heap s ! a)) \<noteq> RUNNING"
  shows "wf (update_job a f s)"
proof (cases "a < length (heap s)")
  case False
  then have "update_job a f s = s" by (simp add: update_job_def list_update_beyond)
  with assms show ?thesis by simp
next
  case True
  have q: "queue_ok (update_job a f s)"
    using assms(1,3) True
    by (auto simp: wf_def queue_ok_def update_job_fields nth_list_update)
  have x: "execs_ok (update_job a f s)"
    using assms True
    by (auto simp: wf_def execs_ok_def update_job_fields nth_list_update)
  have c: "count_ok (update_job a f s)"
    using assms True
    by (simp add: wf_def count_ok_def update_job_fields count_running_update)
  from q x c show ?thesis by (simp add: wf_def)
qed

text \<open>Changing a job without changing its status.\<close>

lemma wf_update_same_status:
  assumes "wf s" and "status (f (heap s ! a)) = status (heap s ! a)"
  shows "wf (update_job a f s)"
proof (cases "a < length (heap s)")
  case False
  then have "update_job a f s = s" by (simp add: update_job_def list_update_beyond)
  with assms show ?thesis by simp
next
  case True
  have q: "queue_ok (update_job a f s)"
    using assms True
    by (auto simp: wf_def queue_ok_def update_job_fields nth_list_update)
  have x: "execs_ok (update_job a f s)"
    using assms True
    by (auto simp: wf_def execs_ok_def update_job_fields nth_list_update)
  have c: "count_ok (update_job a f s)"
    using assms True
    by (simp add: wf_def count_ok_def update_job_fields count_running_update)
  from q x c show ?thesis by (simp add: wf_def)
qed

lemma wf_persistJobs: "wf (persistJobs e s) = wf s"
  by (simp add: wf_def queue_ok_def execs_ok_def count_ok_def persistJobs_fields)

lemma bounded_persistJobs: "bounded (persistJobs e s) = bounded s"
  by (simp add: bounded_def persistJobs_fields)

text \<open>
  The invariant reads the queue, the contexts, the counter and the heap only. Three ways
  of changing one job keep it: a job that is not running stays so; a job that is not
  running and not queued starts running under a fresh context; a running job ends.
\<close>

lemma wf_idle:
  assumes "wf s"
    and "queue t = queue s" and "execs t = execs s" and "runningCount t = runningCount s"
    and "heap t = (heap s)[a := j]"
    and "status (heap s ! a) \<noteq> RUNNING" and "status j \<noteq> RUNNING"
  shows "wf t"
proof (cases "a < length (heap s)")
  case False
  with assms(5) have "heap t = heap s" by (simp add: list_update_beyond)
  with assms(1-4) show ?thesis
    by (simp add: wf_def queue_ok_def execs_ok_def count_ok_def)
next
  case True
  have q: "queue_ok t"
    using assms True
    by (auto simp: wf_def queue_ok_def nth_list_update)
  have x: "execs_ok t"
    using assms True
    by (auto simp: wf_def execs_ok_def nth_list_update)
  have c: "count_ok t"
    using assms True
    by (simp add: wf_def count_ok_def count_running_update)
  from q x c show ?thesis by (simp add: wf_def)
qed

lemma wf_start:
  assumes "wf s"
    and "queue t = queue s" and "execs t = (execs s)(a \<mapsto> x)" and "\<not> finished x"
    and "runningCount t = runningCount s + 1"
    and "heap t = (heap s)[a := j]" and "status j = RUNNING"
    and "a < length (heap s)" and "status (heap s ! a) \<noteq> RUNNING"
    and "a \<notin> fst ` set (queue s)"
  shows "wf t"
proof -
  have q: "queue_ok t"
    using assms
    by (auto simp: wf_def queue_ok_def nth_list_update)
  have x: "execs_ok t"
    using assms
    by (auto simp: wf_def execs_ok_def nth_list_update)
  have c: "count_ok t"
    using assms
    by (simp add: wf_def count_ok_def count_running_update)
  from q x c show ?thesis by (simp add: wf_def)
qed

lemma wf_running_not_queued:
  assumes "wf s" and "execs s a = Some x"
  shows "a \<notin> fst ` set (queue s)" and "a < length (heap s)"
  using assms by (auto simp: wf_def queue_ok_def execs_ok_def)

lemma wf_unfinished_running:
  assumes "wf s" and "execs s a = Some x" and "\<not> finished x"
  shows "status (heap s ! a) = RUNNING"
  using assms by (auto simp: wf_def execs_ok_def)

lemma wf_finish:
  assumes "wf s"
    and "execs s a = Some x" and "\<not> finished x"
    and "queue t = queue s" and "execs t = (execs s)(a \<mapsto> y)" and "finished y"
    and "runningCount t = runningCount s - 1"
    and "heap t = (heap s)[a := j]" and "status j \<noteq> RUNNING"
  shows "wf t"
proof -
  have a: "a < length (heap s)" and r: "status (heap s ! a) = RUNNING"
    and nq: "a \<notin> fst ` set (queue s)"
    using assms(1-3) by (auto simp: wf_def queue_ok_def execs_ok_def)
  have q: "queue_ok t"
    using assms a r nq
    by (auto simp: wf_def queue_ok_def nth_list_update)
  have x: "execs_ok t"
    using assms a r
    by (auto simp: wf_def execs_ok_def nth_list_update)
  have c: "count_ok t"
    using assms a r
    by (simp add: wf_def count_ok_def count_running_update)
  from q x c show ?thesis by (simp add: wf_def)
qed

lemma wf_ctx:
  assumes "wf s"
    and "execs s a = Some x" and "finished y = finished x"
    and "queue t = queue s" and "execs t = (execs s)(a \<mapsto> y)"
    and "runningCount t = runningCount s"
    and "heap t = (heap s)[a := j]" and "status j = status (heap s ! a)"
  shows "wf t"
proof -
  have a: "a < length (heap s)"
    using assms(1,2) by (auto simp: wf_def execs_ok_def)
  have q: "queue_ok t"
    using assms a by (auto simp: wf_def queue_ok_def nth_list_update)
  have x: "execs_ok t"
    using assms a by (auto simp: wf_def execs_ok_def nth_list_update)
  have c: "count_ok t"
    using assms a by (simp add: wf_def count_ok_def count_running_update)
  from q x c show ?thesis by (simp add: wf_def)
qed

lemma wf_append:
  assumes "wf s"
    and "queue t = queue s" and "execs t = execs s" and "runningCount t = runningCount s"
    and "heap t = heap s @ [j]" and "status j \<noteq> RUNNING"
  shows "wf t"
proof -
  have none: "execs s (length (heap s)) = None"
    using assms(1) by (cases "execs s (length (heap s))") (auto simp: wf_def execs_ok_def)
  have q: "queue_ok t"
    using assms by (auto simp: wf_def queue_ok_def nth_append)
  have x: "execs_ok t"
    using assms none by (auto simp: wf_def execs_ok_def nth_append less_Suc_eq)
  have c: "count_ok t"
    using assms by (simp add: wf_def count_ok_def count_running_append)
  from q x c show ?thesis by (simp add: wf_def)
qed

lemma wf_push:
  assumes "wf s" and "a < length (heap s)" and "status (heap s ! a) \<noteq> RUNNING"
    and "execs s a = None" and "a \<notin> fst ` set (queue s)"
  shows "wf (s\<lparr>queue := queue s @ [(a, sc)]\<rparr>)"
  using assms by (auto simp: wf_def queue_ok_def execs_ok_def count_ok_def)

lemma wf_pop:
  assumes "wf s" and "queue s \<noteq> []"
  shows "wf (s\<lparr>queue := tl (queue s)\<rparr>)"
    and "fst (hd (queue s)) < length (heap s)"
    and "status (heap s ! fst (hd (queue s))) \<noteq> RUNNING"
    and "execs s (fst (hd (queue s))) = None"
    and "fst (hd (queue s)) \<notin> fst ` set (tl (queue s))"
proof -
  from assms(2) obtain p ps where q: "queue s = p # ps"
    by (cases "queue s") auto
  with assms(1) show "wf (s\<lparr>queue := tl (queue s)\<rparr>)"
    by (auto simp: wf_def queue_ok_def execs_ok_def count_ok_def)
  from q assms(1) show "fst (hd (queue s)) < length (heap s)"
    and "status (heap s ! fst (hd (queue s))) \<noteq> RUNNING"
    and "execs s (fst (hd (queue s))) = None"
    and "fst (hd (queue s)) \<notin> fst ` set (tl (queue s))"
    by (auto simp: wf_def queue_ok_def)
qed

lemma cancelAtHead_fields:
  "heap (cancelAtHead e a s) =
     (heap s)[a := (heap s ! a)\<lparr>status := CANCELED, code := Some (- 1), endedAt := Some (now e),
                 durationMs := Some 0\<rparr>]"
  "execs (cancelAtHead e a s) = execs s"
  "queue (cancelAtHead e a s) = queue s"
  "jobs (cancelAtHead e a s) = jobs s"
  "runningCount (cancelAtHead e a s) = runningCount s"
  "maxConcurrent (cancelAtHead e a s) = maxConcurrent s"
  "files (cancelAtHead e a s) = files s"
  by (simp_all add: cancelAtHead_def persistJobs_fields update_job_fields)

lemma wf_cancelAtHead:
  assumes "wf s" and "status (heap s ! a) \<noteq> RUNNING"
  shows "wf (cancelAtHead e a s)"
  by (rule wf_idle [OF assms(1) cancelAtHead_fields(3,2,5,1) assms(2)]) simp

lemma executeJob_body_fields:
  "queue (executeJob_body e a sc s) = queue s"
  "jobs (executeJob_body e a sc s) = jobs s"
  "maxConcurrent (executeJob_body e a sc s) = maxConcurrent s"
  "length (heap (executeJob_body e a sc s)) = length (heap s)"
  by (simp_all add: executeJob_body_def Let_def persistJobs_fields update_job_fields)

lemma executeJob_body_opens:
  assumes "opens e a s"
  shows "execs (executeJob_body e a sc s) =
           (execs s)(a \<mapsto> \<lparr>startedMs = now e, stdoutFd = True, stderrFd = True,
                 stdoutPreviewBuf = [], stderrPreviewBuf = [],
                 timeoutHandle = (timeoutSec sc > 0), timedOut = False,
                 finished = False\<rparr>)"
    and "runningCount (executeJob_body e a sc s) = runningCount s + 1"
    and "heap (executeJob_body e a sc s) =
           (heap s)[a := (heap s ! a)\<lparr>status := RUNNING, startedAt := Some (now e)\<rparr>]"
proof -
  have refs: "stdoutRef ((heap s)[a := (heap s ! a)\<lparr>status := RUNNING, startedAt := Some (now e)\<rparr>] ! a)
                = stdoutRef (heap s ! a)"
      "stderrRef ((heap s)[a := (heap s ! a)\<lparr>status := RUNNING, startedAt := Some (now e)\<rparr>] ! a)
                = stderrRef (heap s ! a)"
    by (cases "a < length (heap s)"; simp add: list_update_beyond)+
  from assms refs show "execs (executeJob_body e a sc s) =
           (execs s)(a \<mapsto> \<lparr>startedMs = now e, stdoutFd = True, stderrFd = True,
                 stdoutPreviewBuf = [], stderrPreviewBuf = [],
                 timeoutHandle = (timeoutSec sc > 0), timedOut = False,
                 finished = False\<rparr>)"
    and "runningCount (executeJob_body e a sc s) = runningCount s + 1"
    and "heap (executeJob_body e a sc s) =
           (heap s)[a := (heap s ! a)\<lparr>status := RUNNING, startedAt := Some (now e)\<rparr>]"
    by (simp_all add: executeJob_body_def opens_def logPath_def Let_def persistJobs_fields
          update_job_fields)
qed

lemma executeJob_body_fails:
  assumes "\<not> opens e a s"
  shows "execs (executeJob_body e a sc s) = execs s"
    and "runningCount (executeJob_body e a sc s) = runningCount s"
    and "heap (executeJob_body e a sc s) =
           (heap s)[a := (heap s ! a)\<lparr>startedAt := Some (now e), status := FAILED,
              code := Some (- 1), endedAt := Some (now e), durationMs := Some 0,
              stderrPreview := ''failed to open log files''\<rparr>]"
proof -
  have refs: "stdoutRef ((heap s)[a := (heap s ! a)\<lparr>status := RUNNING, startedAt := Some (now e)\<rparr>] ! a)
                = stdoutRef (heap s ! a)"
      "stderrRef ((heap s)[a := (heap s ! a)\<lparr>status := RUNNING, startedAt := Some (now e)\<rparr>] ! a)
                = stderrRef (heap s ! a)"
    by (cases "a < length (heap s)"; simp add: list_update_beyond)+
  from assms refs show "execs (executeJob_body e a sc s) = execs s"
    and "runningCount (executeJob_body e a sc s) = runningCount s"
    by (auto simp add: executeJob_body_def opens_def logPath_def Let_def persistJobs_fields
          update_job_fields)
  from assms refs show "heap (executeJob_body e a sc s) =
           (heap s)[a := (heap s ! a)\<lparr>startedAt := Some (now e), status := FAILED,
              code := Some (- 1), endedAt := Some (now e), durationMs := Some 0,
              stderrPreview := ''failed to open log files''\<rparr>]"
    by (cases "a < length (heap s)")
       (auto simp add: executeJob_body_def opens_def logPath_def Let_def persistJobs_fields
          update_job_fields list_update_beyond)
qed

lemma wf_executeJob_body:
  assumes "wf s" and "a < length (heap s)" and "status (heap s ! a) \<noteq> RUNNING"
    and "a \<notin> fst ` set (queue s)"
  shows "wf (executeJob_body e a sc s)"
proof (cases "opens e a s")
  case True
  show ?thesis
    by (rule wf_start [OF assms(1) executeJob_body_fields(1) executeJob_body_opens(1) [OF True] _
          executeJob_body_opens(2) [OF True] executeJob_body_opens(3) [OF True] _ assms(2-4)])
       simp_all
next
  case False
  show ?thesis
    by (rule wf_idle [OF assms(1) executeJob_body_fields(1) executeJob_body_fails(1) [OF False]
          executeJob_body_fails(2) [OF False] executeJob_body_fails(3) [OF False] assms(3)])
       simp
qed

lemma bounded_executeJob_body:
  assumes "runningCount s < maxConcurrent s"
  shows "bounded (executeJob_body e a sc s)"
  using assms executeJob_body_opens(2) [of e a s sc] executeJob_body_fails(2) [of e a s sc]
  by (cases "opens e a s") (simp_all add: bounded_def executeJob_body_fields)

lemma bounded_cancelAtHead: "bounded (cancelAtHead e a s) = bounded s"
  by (simp add: bounded_def cancelAtHead_fields)

lemma drainQueue_stop:
  assumes "\<not> (runningCount s < maxConcurrent s \<and> queue s \<noteq> [])"
  shows "drainQueue e s = s"
  by (rule trans [OF drainQueue.simps]) (rule if_not_P [OF assms])

lemma drainQueue_cancel:
  assumes "runningCount s < maxConcurrent s \<and> queue s \<noteq> []"
    and "cancelRequested (heap s ! fst (hd (queue s)))"
  shows "drainQueue e s =
           drainQueue e (cancelAtHead e (fst (hd (queue s))) (s\<lparr>queue := tl (queue s)\<rparr>))"
  by (rule trans [OF drainQueue.simps]) (simp add: assms Let_def)

lemma drainQueue_exec:
  assumes "runningCount s < maxConcurrent s \<and> queue s \<noteq> []"
    and "\<not> cancelRequested (heap s ! fst (hd (queue s)))"
  shows "drainQueue e s =
           drainQueue e (executeJob_body e (fst (hd (queue s))) (snd (hd (queue s)))
                           (s\<lparr>queue := tl (queue s)\<rparr>))"
  by (rule trans [OF drainQueue.simps]) (simp add: assms Let_def)

lemma wf_drainQueue:
  assumes "wf s"
  shows "wf (drainQueue e s)"
  using assms
proof (induction e s rule: drainQueue.induct)
  case (1 e s)
  show ?case
  proof (cases "runningCount s < maxConcurrent s \<and> queue s \<noteq> []")
    case False
    with "1.prems" show ?thesis
      by (simp add: drainQueue_stop)
  next
    case True
    define a where "a = fst (hd (queue s))"
    define sc where "sc = snd (hd (queue s))"
    define s1 where "s1 = s\<lparr>queue := tl (queue s)\<rparr>"
    from True have ne: "queue s \<noteq> []" by simp
    have wf1: "wf s1" and a: "a < length (heap s1)" and st: "status (heap s1 ! a) \<noteq> RUNNING"
      and nq: "a \<notin> fst ` set (queue s1)"
      using wf_pop [OF "1.prems" ne] by (simp_all add: s1_def a_def)
    show ?thesis
    proof (cases "cancelRequested (heap s1 ! a)")
      case c: True
      have "wf (cancelAtHead e a s1)"
        using wf1 st by (simp add: wf_cancelAtHead)
      from "1.IH"(1) [OF True a_def sc_def s1_def c this]
      show ?thesis
        using drainQueue_cancel [OF True, of e] c by (simp add: a_def s1_def)
    next
      case c: False
      have "wf (executeJob_body e a sc s1)"
        using wf1 a st nq by (simp add: wf_executeJob_body)
      from "1.IH"(2) [OF True a_def sc_def s1_def c this]
      show ?thesis
        using drainQueue_exec [OF True, of e] c by (simp add: a_def sc_def s1_def)
    qed
  qed
qed

lemma bounded_drainQueue:
  assumes "bounded s"
  shows "bounded (drainQueue e s)"
  using assms
proof (induction e s rule: drainQueue.induct)
  case (1 e s)
  show ?case
  proof (cases "runningCount s < maxConcurrent s \<and> queue s \<noteq> []")
    case False
    with "1.prems" show ?thesis
      by (simp add: drainQueue_stop)
  next
    case True
    define a where "a = fst (hd (queue s))"
    define sc where "sc = snd (hd (queue s))"
    define s1 where "s1 = s\<lparr>queue := tl (queue s)\<rparr>"
    have b1: "bounded s1" and lt: "runningCount s1 < maxConcurrent s1"
      using "1.prems" True by (simp_all add: s1_def bounded_def)
    show ?thesis
    proof (cases "cancelRequested (heap s1 ! a)")
      case c: True
      have "bounded (cancelAtHead e a s1)"
        using b1 by (simp add: bounded_cancelAtHead)
      from "1.IH"(1) [OF True a_def sc_def s1_def c this]
      show ?thesis
        using drainQueue_cancel [OF True, of e] c by (simp add: a_def s1_def)
    next
      case c: False
      have "bounded (executeJob_body e a sc s1)"
        using lt by (simp add: bounded_executeJob_body)
      from "1.IH"(2) [OF True a_def sc_def s1_def c this]
      show ?thesis
        using drainQueue_exec [OF True, of e] c by (simp add: a_def sc_def s1_def)
    qed
  qed
qed

lemma drainQueue_done:
  "\<not> (runningCount (drainQueue e s) < maxConcurrent (drainQueue e s) \<and> queue (drainQueue e s) \<noteq> [])"
proof (induction e s rule: drainQueue.induct)
  case (1 e s)
  show ?case
  proof (cases "runningCount s < maxConcurrent s \<and> queue s \<noteq> []")
    case False
    then show ?thesis
      by (simp add: drainQueue_stop)
  next
    case True
    define a where "a = fst (hd (queue s))"
    define sc where "sc = snd (hd (queue s))"
    define s1 where "s1 = s\<lparr>queue := tl (queue s)\<rparr>"
    show ?thesis
    proof (cases "cancelRequested (heap s1 ! a)")
      case c: True
      have eq: "drainQueue e s = drainQueue e (cancelAtHead e a s1)"
        using drainQueue_cancel [OF True, of e] c by (simp add: a_def s1_def)
      from "1.IH"(1) [OF True a_def sc_def s1_def c] show ?thesis
        unfolding eq .
    next
      case c: False
      have eq: "drainQueue e s = drainQueue e (executeJob_body e a sc s1)"
        using drainQueue_exec [OF True, of e] c by (simp add: a_def sc_def s1_def)
      from "1.IH"(2) [OF True a_def sc_def s1_def c] show ?thesis
        unfolding eq .
    qed
  qed
qed

lemma drainQueue_idem: "drainQueue e (drainQueue e s) = drainQueue e s"
  by (rule drainQueue_stop [OF drainQueue_done])

text \<open>The loop as the source writes it, with \<open>executeJob\<close> (and its own call of the loop) in the body.\<close>

lemma drainQueue_loop:
  "drainQueue e s =
     (if runningCount s < maxConcurrent s \<and> queue s \<noteq> [] then
        (let a = fst (hd (queue s)); sc = snd (hd (queue s));
             s1 = s\<lparr>queue := tl (queue s)\<rparr>
         in if cancelRequested (heap s1 ! a) then drainQueue e (cancelAtHead e a s1)
            else drainQueue e (executeJob e a sc s1))
      else s)"
  by (subst drainQueue.simps) (simp add: executeJob_def drainQueue_idem Let_def)

lemma finishJob_unfold:
  assumes "execs s a = Some x" and "\<not> finished x"
  shows "finishJob e a st c s =
     drainQueue e (persistJobs e
       (s\<lparr>execs := (execs s)(a \<mapsto> x\<lparr>finished := True, timeoutHandle := False,
                       stdoutFd := False, stderrFd := False\<rparr>),
          heap := (heap s)[a := (heap s ! a)\<lparr>stdoutPreview := utf8_decode e (stdoutPreviewBuf x),
                              stderrPreview := utf8_decode e (stderrPreviewBuf x),
                              status := st, code := Some c, endedAt := Some (now e),
                              durationMs := Some (now e - startedMs x)\<rparr>],
          runningCount := runningCount s - 1\<rparr>))"
  using assms by (simp add: finishJob_def Let_def update_job_def)

lemma wf_finishJob:
  assumes "wf s" and "st \<noteq> RUNNING"
  shows "wf (finishJob e a st c s)"
proof (cases "execs s a")
  case None
  with assms show ?thesis by (simp add: finishJob_def)
next
  case (Some x)
  show ?thesis
  proof (cases "finished x")
    case True
    with Some assms show ?thesis by (simp add: finishJob_def)
  next
    case False
    show ?thesis
      unfolding finishJob_unfold [OF Some False]
      by (rule wf_drainQueue, rule wf_finish [OF assms(1) Some False])
         ((simp_all add: persistJobs_fields assms(2))+)
  qed
qed

lemma bounded_finishJob:
  assumes "bounded s"
  shows "bounded (finishJob e a st c s)"
proof (cases "execs s a")
  case None
  with assms show ?thesis by (simp add: finishJob_def)
next
  case (Some x)
  show ?thesis
  proof (cases "finished x")
    case True
    with Some assms show ?thesis by (simp add: finishJob_def)
  next
    case False
    show ?thesis
      unfolding finishJob_unfold [OF Some False]
      using assms by (intro bounded_drainQueue) (simp add: bounded_def persistJobs_fields)
  qed
qed

lemma set_log_status: "status (set_log k l j) = status j"
  by (cases k) (simp_all add: set_log_def)

lemma wf_onData:
  assumes "wf s"
  shows "wf (onData e a k chunk s)"
proof (cases "execs s a")
  case None
  with assms show ?thesis by (simp add: onData_def)
next
  case (Some x)
  have fin: "finished (case k of
                 Stdout \<Rightarrow> x\<lparr>stdoutPreviewBuf := b1\<rparr>
               | Stderr \<Rightarrow> x\<lparr>stderrPreviewBuf := b2\<rparr>) = finished x" for b1 b2
    by (cases k) simp_all
  show ?thesis
  proof (rule wf_ctx [OF assms Some])
    show "queue (onData e a k chunk s) = queue s"
      using Some by (simp add: onData_def Let_def update_job_fields split: sum.split)
    show "runningCount (onData e a k chunk s) = runningCount s"
      using Some by (simp add: onData_def Let_def update_job_fields split: sum.split)
    show "execs (onData e a k chunk s) = (execs s)(a \<mapsto> the (execs (onData e a k chunk s) a))"
      using Some by (auto simp add: onData_def Let_def update_job_fields split: sum.split)
    show "finished (the (execs (onData e a k chunk s) a)) = finished x"
      using Some by (simp add: onData_def Let_def update_job_fields fin split: sum.split)
    show "heap (onData e a k chunk s) = (heap s)[a := heap (onData e a k chunk s) ! a]"
      using Some
      by (cases "a < length (heap s)")
         (simp_all add: onData_def Let_def update_job_fields list_update_beyond split: sum.split)
    show "status (heap (onData e a k chunk s) ! a) = status (heap s ! a)"
      using Some
      by (cases "a < length (heap s)")
         (simp_all add: onData_def Let_def update_job_fields list_update_beyond set_log_status
            split: sum.split)
  qed
qed

lemma bounded_onData:
  assumes "bounded s"
  shows "bounded (onData e a k chunk s)"
  using assms
  by (cases "execs s a")
     (simp_all add: bounded_def onData_def Let_def update_job_fields split: sum.split)

lemma wf_onTimeout:
  assumes "wf s"
  shows "wf (onTimeout a s)"
proof (cases "execs s a")
  case None
  with assms show ?thesis by (simp add: onTimeout_def)
next
  case (Some x)
  show ?thesis
  proof (cases "timeoutHandle x")
    case False
    with Some assms show ?thesis by (simp add: onTimeout_def)
  next
    case True
    show ?thesis
      by (rule wf_ctx [OF assms Some, where y = "x\<lparr>timedOut := True, timeoutHandle := False\<rparr>"
            and j = "heap s ! a"])
         (simp_all add: onTimeout_def Some True)
  qed
qed

lemma bounded_onTimeout:
  assumes "bounded s"
  shows "bounded (onTimeout a s)"
  using assms by (cases "execs s a") (simp_all add: bounded_def onTimeout_def)

lemma onError_unfold:
  assumes "execs s a = Some x"
  shows "onError e a msg s =
     finishJob e a FAILED (- 1)
       (s\<lparr>execs := (execs s)(a \<mapsto> x\<lparr>stderrPreviewBuf :=
            appendTailBuffer (stderrPreviewBuf x) (utf8_encode e (CHR 0x0A # msg))
              (previewMaxBytes s)\<rparr>)\<rparr>)"
  using assms by (simp add: onError_def)

lemma wf_onError:
  assumes "wf s"
  shows "wf (onError e a msg s)"
proof (cases "execs s a")
  case None
  with assms show ?thesis by (simp add: onError_def)
next
  case (Some x)
  show ?thesis
    unfolding onError_unfold [OF Some]
    by (rule wf_finishJob, rule wf_ctx [OF assms Some, where j = "heap s ! a"]) simp_all
qed

lemma bounded_onError:
  assumes "bounded s"
  shows "bounded (onError e a msg s)"
proof (cases "execs s a")
  case None
  with assms show ?thesis by (simp add: onError_def)
next
  case (Some x)
  show ?thesis
    unfolding onError_unfold [OF Some]
    using assms by (intro bounded_finishJob) (simp add: bounded_def)
qed

lemma onClose_finishes:
  assumes "execs s a = Some x"
  shows "\<exists>st c. st \<noteq> RUNNING \<and> onClose e a exitCode signal s = finishJob e a st c s"
  using assms by (auto simp: onClose_def)

lemma wf_onClose:
  assumes "wf s"
  shows "wf (onClose e a exitCode signal s)"
proof (cases "execs s a")
  case None
  with assms show ?thesis by (simp add: onClose_def)
next
  case (Some x)
  from onClose_finishes [OF this, of e exitCode signal] wf_finishJob [OF assms]
  show ?thesis by auto
qed

lemma bounded_onClose:
  assumes "bounded s"
  shows "bounded (onClose e a exitCode signal s)"
proof (cases "execs s a")
  case None
  with assms show ?thesis by (simp add: onClose_def)
next
  case (Some x)
  from onClose_finishes [OF this, of e exitCode signal] bounded_finishJob [OF assms]
  show ?thesis by auto
qed

lemma bounded_update_job: "bounded (update_job a f s) = bounded s"
  by (simp add: bounded_def update_job_fields)

lemma cancelJob_cases:
  assumes "map_of (jobs s) jid = Some a"
  shows "snd (cancelJob e jid s) = s \<or>
         snd (cancelJob e jid s) = update_job a (\<lambda>j. j\<lparr>cancelRequested := True\<rparr>) s \<or>
         (status (heap s ! a) = QUEUED \<and>
          snd (cancelJob e jid s) =
            persistJobs e
              (update_job a
                 (\<lambda>j. j\<lparr>status := CANCELED, code := Some (- 1),
                        endedAt := Some (now e), durationMs := Some 0\<rparr>)
                 (update_job a (\<lambda>j. j\<lparr>cancelRequested := True\<rparr>) s)))"
proof -
  have "status (heap (update_job a (\<lambda>j. j\<lparr>cancelRequested := True\<rparr>) s) ! a) = status (heap s ! a)"
    by (cases "a < length (heap s)") (simp_all add: update_job_fields list_update_beyond)
  with assms show ?thesis
    by (simp add: cancelJob_def Let_def)
qed

lemma wf_cancelJob:
  assumes "wf s"
  shows "wf (snd (cancelJob e jid s))"
proof (cases "map_of (jobs s) jid")
  case None
  with assms show ?thesis by (simp add: cancelJob_def)
next
  case (Some a)
  define s1 where "s1 = update_job a (\<lambda>j. j\<lparr>cancelRequested := True\<rparr>) s"
  have st1: "status (heap s1 ! a) = status (heap s ! a)"
    by (cases "a < length (heap s)") (simp_all add: s1_def update_job_fields list_update_beyond)
  have wf1: "wf s1"
    using assms by (simp add: s1_def wf_update_same_status)
  have wf2: "status (heap s ! a) = QUEUED \<Longrightarrow>
      wf (persistJobs e (update_job a (\<lambda>j. j\<lparr>status := CANCELED, code := Some (- 1),
                        endedAt := Some (now e), durationMs := Some 0\<rparr>) s1))"
    using wf1 st1 by (simp add: wf_persistJobs wf_update_idle)
  from cancelJob_cases [OF Some, of e] assms wf1 wf2 show ?thesis
    by (auto simp: s1_def)
qed

lemma bounded_cancelJob:
  assumes "bounded s"
  shows "bounded (snd (cancelJob e jid s))"
proof (cases "map_of (jobs s) jid")
  case None
  with assms show ?thesis by (simp add: cancelJob_def)
next
  case (Some a)
  from cancelJob_cases [OF Some, of e] assms show ?thesis
    by (auto simp: bounded_persistJobs bounded_update_job)
qed

lemma createJob_fields:
  "fst (createJob e sid as m s) = length (heap s)"
  "queue (snd (createJob e sid as m s)) = queue s"
  "execs (snd (createJob e sid as m s)) = execs s"
  "runningCount (snd (createJob e sid as m s)) = runningCount s"
  "maxConcurrent (snd (createJob e sid as m s)) = maxConcurrent s"
  "length (heap (snd (createJob e sid as m s))) = Suc (length (heap s))"
  "status (heap (snd (createJob e sid as m s)) ! length (heap s)) = QUEUED"
  "\<exists>j. heap (snd (createJob e sid as m s)) = heap s @ [j] \<and> status j = QUEUED"
  by (simp_all add: createJob_def nextJobId_def Let_def persistJobs_fields)

lemma wf_createJob:
  assumes "wf s"
  shows "wf (snd (createJob e sid as m s))"
proof -
  from createJob_fields(8) [of e sid as m s] obtain j
    where h: "heap (snd (createJob e sid as m s)) = heap s @ [j]" and q: "status j = QUEUED"
    by blast
  show ?thesis
    by (rule wf_append [OF assms createJob_fields(2,3,4) h]) (simp add: q)
qed

lemma wf_fresh:
  assumes "wf s"
  shows "execs s (length (heap s)) = None" and "length (heap s) \<notin> fst ` set (queue s)"
proof -
  show "execs s (length (heap s)) = None"
    using assms by (cases "execs s (length (heap s))") (auto simp: wf_def execs_ok_def)
  show "length (heap s) \<notin> fst ` set (queue s)"
    using assms by (auto simp: wf_def queue_ok_def)
qed

lemma submitRun_cases:
  "snd (submitRun e r s) = s \<or>
   (\<exists>sid as m sc. snd (submitRun e r s) =
      enqueue e (fst (createJob e sid as m s)) sc (snd (createJob e sid as m s)))"
proof -
  define as where "as = (if req_args r = JUndefined then JArray [] else req_args r)"
  show ?thesis
  proof (cases "validateRequest e s (req_scriptId r) as")
    case (Inl x)
    then show ?thesis by (simp add: submitRun_def as_def)
  next
    case (Inr v)
    show ?thesis
    proof (cases v)
      case (Invalid c m)
      with Inr show ?thesis by (simp add: submitRun_def as_def)
    next
      case (Valid sc)
      with Inr have "snd (submitRun e r s) =
          enqueue e (fst (createJob e (script_id sc) (string_args as) (resolveMode s sc (req_mode r)) s)) sc
            (snd (createJob e (script_id sc) (string_args as) (resolveMode s sc (req_mode r)) s))"
        by (simp add: submitRun_def as_def Let_def split_beta)
      then show ?thesis by blast
    qed
  qed
qed

lemma wf_enqueue_created:
  assumes "wf s"
  shows "wf (enqueue e (fst (createJob e sid as m s)) sc (snd (createJob e sid as m s)))"
  unfolding enqueue_def
proof (rule wf_drainQueue, rule wf_push [OF wf_createJob [OF assms]])
  show "fst (createJob e sid as m s) < length (heap (snd (createJob e sid as m s)))"
    by (simp add: createJob_fields)
  show "status (heap (snd (createJob e sid as m s)) ! fst (createJob e sid as m s)) \<noteq> RUNNING"
    by (simp add: createJob_fields)
  show "execs (snd (createJob e sid as m s)) (fst (createJob e sid as m s)) = None"
    using wf_fresh(1) [OF assms] by (simp add: createJob_fields)
  show "fst (createJob e sid as m s) \<notin> fst ` set (queue (snd (createJob e sid as m s)))"
    using wf_fresh(2) [OF assms] by (simp add: createJob_fields)
qed

lemma wf_submitRun:
  assumes "wf s"
  shows "wf (snd (submitRun e r s))"
  using submitRun_cases [of e r s] assms wf_enqueue_created [OF assms] by auto

lemma bounded_submitRun:
  assumes "bounded s"
  shows "bounded (snd (submitRun e r s))"
proof -
  have "bounded (enqueue e (fst (createJob e sid as m s)) sc (snd (createJob e sid as m s)))"
    for sid as m sc
    unfolding enqueue_def
    using assms by (intro bounded_drainQueue) (simp add: bounded_def createJob_fields)
  with submitRun_cases [of e r s] assms show ?thesis by auto
qed

lemma wf_step:
  assumes "wf s"
  shows "wf (step e ev s)"
  using assms
  by (cases ev)
     (simp_all add: wf_submitRun wf_cancelJob wf_onData wf_onError wf_onClose wf_onTimeout)

lemma bounded_step:
  assumes "bounded s"
  shows "bounded (step e ev s)"
  using assms
  by (cases ev)
     (simp_all add: bounded_submitRun bounded_cancelJob bounded_onData bounded_onError
        bounded_onClose bounded_onTimeout)

lemma reaches_wf:
  assumes "reaches s t" and "wf s"
  shows "wf t"
  using assms by (induction rule: reaches.induct) (simp_all add: wf_step)

lemma reaches_bounded:
  assumes "reaches s t" and "bounded s"
  shows "bounded t"
  using assms by (induction rule: reaches.induct) (simp_all add: bounded_step)

lemma frame_refl: "frame s s"
  by (simp add: frame_def)

lemma frame_trans: "frame s t \<Longrightarrow> frame t u \<Longrightarrow> frame s u"
  by (simp add: frame_def)

lemma frame_drainQueue: "frame s (drainQueue e s)"
proof (induction e s rule: drainQueue.induct)
  case (1 e s)
  show ?case
  proof (cases "runningCount s < maxConcurrent s \<and> queue s \<noteq> []")
    case False
    then show ?thesis by (simp add: drainQueue_stop frame_refl)
  next
    case True
    define a where "a = fst (hd (queue s))"
    define sc where "sc = snd (hd (queue s))"
    define s1 where "s1 = s\<lparr>queue := tl (queue s)\<rparr>"
    show ?thesis
    proof (cases "cancelRequested (heap s1 ! a)")
      case c: True
      have "frame s (cancelAtHead e a s1)"
        by (simp add: frame_def cancelAtHead_fields s1_def)
      from frame_trans [OF this "1.IH"(1) [OF True a_def sc_def s1_def c]]
      show ?thesis
        using drainQueue_cancel [OF True, of e] c by (simp add: a_def s1_def)
    next
      case c: False
      have "frame s (executeJob_body e a sc s1)"
        by (simp add: frame_def executeJob_body_fields s1_def)
      from frame_trans [OF this "1.IH"(2) [OF True a_def sc_def s1_def c]]
      show ?thesis
        using drainQueue_exec [OF True, of e] c by (simp add: a_def sc_def s1_def)
    qed
  qed
qed

lemma frame_finishJob: "frame s (finishJob e a st c s)"
proof (cases "execs s a")
  case None
  then show ?thesis by (simp add: finishJob_def frame_refl)
next
  case (Some x)
  show ?thesis
  proof (cases "finished x")
    case True
    with Some show ?thesis by (simp add: finishJob_def frame_refl)
  next
    case False
    define y where "y = x\<lparr>finished := True, timeoutHandle := False,
                       stdoutFd := False, stderrFd := False\<rparr>"
    define t where "t = persistJobs e
       ((update_job a
           (\<lambda>j. j\<lparr>stdoutPreview := utf8_decode e (stdoutPreviewBuf y),
                  stderrPreview := utf8_decode e (stderrPreviewBuf y),
                  status := st, code := Some c, endedAt := Some (now e),
                  durationMs := Some (now e - startedMs y)\<rparr>)
           (s\<lparr>execs := (execs s)(a \<mapsto> y)\<rparr>))
        \<lparr>runningCount := runningCount s - 1\<rparr>)"
    have eq: "finishJob e a st c s = drainQueue e t"
      using Some False
      by (simp add: finishJob_def Let_def t_def y_def update_job_fields)
    have "frame s t"
      by (simp add: frame_def t_def persistJobs_fields update_job_fields)
    from frame_trans [OF this frame_drainQueue] show ?thesis
      by (simp add: eq)
  qed
qed

lemma frame_onData: "frame s (onData e a k chunk s)"
  by (cases "execs s a")
     (simp_all add: onData_def Let_def frame_def update_job_fields split: sum.split)

lemma frame_onTimeout: "frame s (onTimeout a s)"
  by (cases "execs s a") (simp_all add: onTimeout_def frame_def)

lemma frame_onError: "frame s (onError e a msg s)"
proof (cases "execs s a")
  case None
  then show ?thesis by (simp add: onError_def frame_refl)
next
  case (Some x)
  define t where "t = s\<lparr>execs := (execs s)(a \<mapsto> x\<lparr>stderrPreviewBuf :=
                 appendTailBuffer (stderrPreviewBuf x) (utf8_encode e (CHR 0x0A # msg))
                   (previewMaxBytes s)\<rparr>)\<rparr>"
  have eq: "onError e a msg s = finishJob e a FAILED (- 1) t"
    using Some by (simp add: onError_def t_def)
  have "frame s t"
    by (simp add: frame_def t_def)
  from frame_trans [OF this frame_finishJob] show ?thesis
    by (simp add: eq)
qed

lemma frame_onClose: "frame s (onClose e a exitCode signal s)"
  by (cases "execs s a") (simp_all add: onClose_def frame_refl frame_finishJob)

lemma frame_cancelJob: "frame s (snd (cancelJob e jid s))"
  by (cases "map_of (jobs s) jid")
     (simp_all add: cancelJob_def Let_def frame_def persistJobs_fields update_job_fields)

lemma jobs_ok_frame: "frame s t \<Longrightarrow> jobs_ok s \<Longrightarrow> jobs_ok t"
  by (simp add: frame_def jobs_ok_def)

lemma update_fresh_value:
  assumes "distinct (map snd al)" and "v \<notin> snd ` set al"
  shows "distinct (map snd (AList.update k v al)) \<and>
         (\<forall>p \<in> set (AList.update k v al). snd p = v \<or> p \<in> set al)"
  using assms
proof (induction al)
  case Nil
  then show ?case by simp
next
  case (Cons p ps)
  then show ?case by (cases p) (auto simp: image_iff)
qed

lemma jobs_ok_add:
  assumes "jobs_ok s"
    and "jobs t = AList.update k (length (heap s)) (jobs s)"
    and "length (heap t) = Suc (length (heap s))"
  shows "jobs_ok t"
proof -
  have fresh: "length (heap s) \<notin> snd ` set (jobs s)"
    using assms(1) by (auto simp: jobs_ok_def)
  from assms(1) have d: "distinct (map snd (jobs s))"
    and lt: "\<forall>p \<in> set (jobs s). snd p < length (heap s)"
    by (simp_all add: jobs_ok_def)
  from update_fresh_value [OF d fresh, of k]
  have d': "distinct (map snd (jobs t))"
    and m: "\<forall>p \<in> set (jobs t). snd p = length (heap s) \<or> p \<in> set (jobs s)"
    by (simp_all add: assms(2))
  from m lt have "\<forall>p \<in> set (jobs t). snd p < length (heap t)"
    by (auto simp: assms(3) less_Suc_eq)
  with d' show ?thesis by (simp add: jobs_ok_def)
qed

lemma createJob_jobs:
  "\<exists>k. jobs (snd (createJob e sid as m s)) = AList.update k (length (heap s)) (jobs s)"
  by (simp add: createJob_def nextJobId_def Let_def persistJobs_fields) blast

lemma enqueue_created_jobs_ok:
  assumes "jobs_ok s"
  shows "jobs_ok (enqueue e (fst (createJob e sid as m s)) sc (snd (createJob e sid as m s))) \<and>
         maxConcurrent (enqueue e (fst (createJob e sid as m s)) sc (snd (createJob e sid as m s)))
           = maxConcurrent s"
proof -
  define cj where "cj = createJob e sid as m s"
  from createJob_jobs [of e sid as m s] obtain k
    where k: "jobs (snd cj) = AList.update k (length (heap s)) (jobs s)"
    by (auto simp: cj_def)
  have jc: "jobs_ok (snd cj)"
    by (rule jobs_ok_add [OF assms k]) (simp add: cj_def createJob_fields)
  have f: "frame (snd cj) (enqueue e (fst cj) sc (snd cj))"
    using frame_drainQueue [of "(snd cj)\<lparr>queue := queue (snd cj) @ [(fst cj, sc)]\<rparr>" e]
    by (simp add: enqueue_def frame_def)
  from jobs_ok_frame [OF f jc] f show ?thesis
    by (simp add: frame_def cj_def createJob_fields)
qed

lemma submitRun_jobs_ok:
  assumes "jobs_ok s"
  shows "jobs_ok (snd (submitRun e r s)) \<and> maxConcurrent (snd (submitRun e r s)) = maxConcurrent s"
  using submitRun_cases [of e r s] assms enqueue_created_jobs_ok [OF assms] by auto

lemma step_jobs_ok:
  assumes "jobs_ok s"
  shows "jobs_ok (step e ev s) \<and> maxConcurrent (step e ev s) = maxConcurrent s"
proof (cases ev)
  case (Submit r)
  with submitRun_jobs_ok [OF assms] show ?thesis by simp
next
  case (Cancel jid)
  with jobs_ok_frame [OF frame_cancelJob assms] frame_cancelJob [of s e jid]
  show ?thesis by (simp add: frame_def)
next
  case (Data a k chunk)
  with jobs_ok_frame [OF frame_onData assms] frame_onData [of s e a k chunk]
  show ?thesis by (simp add: frame_def)
next
  case (ChildError a msg)
  with jobs_ok_frame [OF frame_onError assms] frame_onError [of s e a msg]
  show ?thesis by (simp add: frame_def)
next
  case (Close a exitCode signal)
  with jobs_ok_frame [OF frame_onClose assms] frame_onClose [of s e a exitCode signal]
  show ?thesis by (simp add: frame_def)
next
  case (Timeout a)
  with jobs_ok_frame [OF frame_onTimeout assms] frame_onTimeout [of s a]
  show ?thesis by (simp add: frame_def)
qed

lemma reaches_jobs_ok:
  assumes "reaches s t" and "jobs_ok s"
  shows "jobs_ok t \<and> maxConcurrent t = maxConcurrent s"
  using assms
proof (induction rule: reaches.induct)
  case (reaches_refl s)
  then show ?case by simp
next
  case (reaches_step s t e ev)
  then have "jobs_ok t" and "maxConcurrent t = maxConcurrent s" by simp_all
  with step_jobs_ok [of t e ev] show ?case by simp
qed

text \<open>The runner as constructed.\<close>

lemma recover_not_running: "status (recover e r) \<noteq> RUNNING"
  by (simp add: recover_def Let_def split: option.split)

lemma loadEntry_keeps:
  assumes "wf s" and "jobs_ok s"
  shows "wf (loadEntry e entry s) \<and> jobs_ok (loadEntry e entry s) \<and>
         runningCount (loadEntry e entry s) = runningCount s \<and>
         maxConcurrent (loadEntry e entry s) = maxConcurrent s"
proof (cases entry)
  case Non_object
  with assms show ?thesis by (simp add: loadEntry_def)
next
  case (Object r)
  show ?thesis
  proof (cases "jobId r = []")
    case True
    with Object assms show ?thesis by (simp add: loadEntry_def)
  next
    case False
    define t where "t = loadEntry e entry s"
    have h: "heap t = heap s @ [job_of_record (recover e r)]"
      and j: "jobs t = AList.update (jobId (recover e r)) (length (heap s)) (jobs s)"
      and o: "queue t = queue s" "execs t = execs s" "runningCount t = runningCount s"
        "maxConcurrent t = maxConcurrent s"
      using Object False by (simp_all add: t_def loadEntry_def Let_def)
    have "wf t"
      by (rule wf_append [OF assms(1) o(1,2,3) h])
         (simp add: job_of_record_def recover_not_running)
    moreover have "jobs_ok t"
      by (rule jobs_ok_add [OF assms(2) j]) (simp add: h)
    ultimately show ?thesis
      using o by (simp add: t_def)
  qed
qed

lemma fold_loadEntry_keeps:
  assumes "wf s" and "jobs_ok s"
  shows "wf (fold (loadEntry e) es s) \<and> jobs_ok (fold (loadEntry e) es s) \<and>
         runningCount (fold (loadEntry e) es s) = runningCount s \<and>
         maxConcurrent (fold (loadEntry e) es s) = maxConcurrent s"
  using assms
proof (induction es arbitrary: s)
  case Nil
  then show ?case by simp
next
  case (Cons x xs)
  from loadEntry_keeps [OF Cons.prems, of e x]
  have k: "wf (loadEntry e x s)" "jobs_ok (loadEntry e x s)"
    and c: "runningCount (loadEntry e x s) = runningCount s"
      "maxConcurrent (loadEntry e x s) = maxConcurrent s"
    by simp_all
  from Cons.IH [OF k] c show ?case by simp
qed

lemma ScriptRunner_keeps:
  "wf (ScriptRunner e cfg disk fs) \<and> jobs_ok (ScriptRunner e cfg disk fs) \<and>
   runningCount (ScriptRunner e cfg disk fs) = 0 \<and>
   maxConcurrent (ScriptRunner e cfg disk fs) = cfg_maxConcurrent (cfg_runner cfg)"
proof -
  define s0 where "s0 = \<lparr>scriptMap = fold (\<lambda>sc m. AList.update (script_id sc) sc m) (cfg_scripts cfg) [],
        maxConcurrent = cfg_maxConcurrent (cfg_runner cfg),
        defaultMode = cfg_defaultMode (cfg_runner cfg),
        jobStoreFile = cfg_jobStoreFile (cfg_runner cfg),
        logsDir =
          (if cfg_logsDir (cfg_runner cfg) \<noteq> [] then cfg_logsDir (cfg_runner cfg)
           else path_join e (path_dirname e (cfg_jobStoreFile (cfg_runner cfg))) ''logs''),
        maxLogBytesPerStream = or_default (cfg_maxLogBytesPerStream (cfg_runner cfg)) (1024 * 1024),
        previewMaxBytes = or_default (cfg_previewMaxBytes (cfg_runner cfg)) 4096,
        runningCount = 0,
        queue = [],
        seq = 0,
        jobs = [],
        heap = [],
        execs = (\<lambda>_. None),
        files = fs,
        store = disk\<rparr>"
  have eq: "ScriptRunner e cfg disk fs = loadJobsFromDisk e s0"
    by (simp add: ScriptRunner_def s0_def)
  have w: "wf s0" and j: "jobs_ok s0"
    by (simp_all add: s0_def wf_def queue_ok_def execs_ok_def count_ok_def count_running_def
          jobs_ok_def)
  have r: "runningCount s0 = 0" "maxConcurrent s0 = cfg_maxConcurrent (cfg_runner cfg)"
    by (simp_all add: s0_def)
  show ?thesis
  proof (cases "store s0")
    case (Entries es)
    with fold_loadEntry_keeps [OF w j, of e es] r show ?thesis
      by (simp add: eq loadJobsFromDisk_def)
  qed (use w j r in \<open>simp_all add: eq loadJobsFromDisk_def\<close>)
qed

lemma filter_jobs_le:
  assumes "distinct (map snd al)" and "\<forall>p \<in> set al. snd p < length js"
  shows "length (filter (\<lambda>p. P (js ! snd p)) al) \<le> length (filter P js)"
proof -
  define xs where "xs = filter (\<lambda>a. P (js ! a)) (map snd al)"
  have d: "distinct xs"
    using assms(1) by (simp add: xs_def)
  have "length (filter (\<lambda>p. P (js ! snd p)) al) = length xs"
    by (simp add: xs_def filter_map comp_def)
  also have "\<dots> = card (set xs)"
    by (rule distinct_card [OF d, symmetric])
  also have "\<dots> \<le> card {i. i < length js \<and> P (js ! i)}"
    using assms(2) by (intro card_mono) (auto simp: xs_def)
  also have "\<dots> = length (filter P js)"
    by (simp add: length_filter_conv_card)
  finally show ?thesis .
qed

text \<open>
  C2. In every state the runner reaches from its construction (with a ceiling that is not
  negative), the number of jobs whose status is \<open>running\<close> is at most \<open>maxConcurrent\<close>:
  among the entries of the job map and among all job objects. \<open>runningCount\<close> is exactly
  the number of running jobs, and the ceiling is the configured one.
\<close>

theorem running_at_most_maxConcurrent:
  assumes "0 \<le> cfg_maxConcurrent (cfg_runner cfg)"
    and "reaches (ScriptRunner e0 cfg disk fs) s"
  shows "int (length (running_jobs s)) \<le> maxConcurrent s \<and>
         count_running (heap s) \<le> maxConcurrent s \<and>
         runningCount s = count_running (heap s) \<and>
         maxConcurrent s = cfg_maxConcurrent (cfg_runner cfg)"
proof -
  define s0 where "s0 = ScriptRunner e0 cfg disk fs"
  have w0: "wf s0" and j0: "jobs_ok s0" and b0: "bounded s0"
    and m0: "maxConcurrent s0 = cfg_maxConcurrent (cfg_runner cfg)"
    using ScriptRunner_keeps [of e0 cfg disk fs] assms(1)
    by (simp_all add: s0_def bounded_def)
  from assms(2) have r: "reaches s0 s" by (simp add: s0_def)
  from reaches_wf [OF r w0] reaches_bounded [OF r b0] have w: "wf s" and b: "bounded s"
    by simp_all
  from reaches_jobs_ok [OF r j0] m0 have j: "jobs_ok s"
    and m: "maxConcurrent s = cfg_maxConcurrent (cfg_runner cfg)" by simp_all
  from w have c: "runningCount s = count_running (heap s)"
    by (simp add: wf_def count_ok_def)
  from j have "length (running_jobs s) \<le> length (filter (\<lambda>j. status j = RUNNING) (heap s))"
    unfolding running_jobs_def jobs_ok_def by (intro filter_jobs_le) simp_all
  then have "int (length (running_jobs s)) \<le> count_running (heap s)"
    by (simp add: count_running_def)
  with b c m show ?thesis by (simp add: bounded_def)
qed

lemma drainQueue_untouched:
  assumes "b \<notin> fst ` set (queue s)"
  shows "heap (drainQueue e s) ! b = heap s ! b"
  using assms
proof (induction e s rule: drainQueue.induct)
  case (1 e s)
  show ?case
  proof (cases "runningCount s < maxConcurrent s \<and> queue s \<noteq> []")
    case False
    then show ?thesis by (simp add: drainQueue_stop)
  next
    case True
    define a where "a = fst (hd (queue s))"
    define sc where "sc = snd (hd (queue s))"
    define s1 where "s1 = s\<lparr>queue := tl (queue s)\<rparr>"
    from True obtain p ps where q: "queue s = p # ps"
      by (cases "queue s") auto
    with "1.prems" have ne: "b \<noteq> a" and nq: "b \<notin> fst ` set (queue s1)"
      by (auto simp: a_def s1_def)
    show ?thesis
    proof (cases "cancelRequested (heap s1 ! a)")
      case c: True
      have "heap (cancelAtHead e a s1) ! b = heap s ! b"
        using ne by (simp add: cancelAtHead_fields s1_def)
      moreover have "b \<notin> fst ` set (queue (cancelAtHead e a s1))"
        using nq by (simp add: cancelAtHead_fields)
      ultimately show ?thesis
        using "1.IH"(1) [OF True a_def sc_def s1_def c] drainQueue_cancel [OF True, of e] c
        by (simp add: a_def s1_def)
    next
      case c: False
      have "heap (executeJob_body e a sc s1) ! b = heap s ! b"
        using ne executeJob_body_opens(3) [of e a s1 sc] executeJob_body_fails(3) [of e a s1 sc]
        by (cases "opens e a s1") (simp_all add: s1_def)
      moreover have "b \<notin> fst ` set (queue (executeJob_body e a sc s1))"
        using nq by (simp add: executeJob_body_fields)
      ultimately show ?thesis
        using "1.IH"(2) [OF True a_def sc_def s1_def c] drainQueue_exec [OF True, of e] c
        by (simp add: a_def sc_def s1_def)
    qed
  qed
qed

lemma finishJob_result:
  assumes "wf s" and "execs s a = Some x" and "\<not> finished x"
  shows "status (heap (finishJob e a st c s) ! a) = st \<and>
         code (heap (finishJob e a st c s) ! a) = Some c"
proof -
  have a: "a < length (heap s)" and nq: "a \<notin> fst ` set (queue s)"
    using wf_running_not_queued [OF assms(1,2)] by simp_all
  define y where "y = x\<lparr>finished := True, timeoutHandle := False,
                       stdoutFd := False, stderrFd := False\<rparr>"
  define t where "t = persistJobs e
       ((update_job a
           (\<lambda>j. j\<lparr>stdoutPreview := utf8_decode e (stdoutPreviewBuf y),
                  stderrPreview := utf8_decode e (stderrPreviewBuf y),
                  status := st, code := Some c, endedAt := Some (now e),
                  durationMs := Some (now e - startedMs y)\<rparr>)
           (s\<lparr>execs := (execs s)(a \<mapsto> y)\<rparr>))
        \<lparr>runningCount := runningCount s - 1\<rparr>)"
  have eq: "finishJob e a st c s = drainQueue e t"
    using assms(2,3)
    by (simp add: finishJob_def Let_def t_def y_def update_job_fields)
  have "a \<notin> fst ` set (queue t)"
    using nq by (simp add: t_def persistJobs_fields update_job_fields)
  from drainQueue_untouched [OF this, of e] have "heap (finishJob e a st c s) ! a = heap t ! a"
    by (simp add: eq)
  also have "status (heap t ! a) = st \<and> code (heap t ! a) = Some c"
    using a by (simp add: t_def persistJobs_fields update_job_fields)
  finally show ?thesis .
qed

text \<open>
  C1. When the child of a running job exits, in any reachable state, the job's status and
  code after the \<open>close\<close> handler are decided in this order: the timer fired, \<open>timed_out\<close>
  and \<open>-1\<close>; a cancel was requested, \<open>canceled\<close> and \<open>-1\<close>; the child was killed by a signal,
  \<open>failed\<close> and \<open>-1\<close>; exit code \<open>0\<close>, \<open>succeeded\<close> and \<open>0\<close>; otherwise \<open>failed\<close> with the
  exit code, or \<open>-1\<close> without one. A job whose timer fired or whose cancel was requested
  is never failed.
\<close>

theorem close_decides_status:
  assumes "reaches (ScriptRunner e0 cfg disk fs) s"
    and "a < length (heap s)" and "status (heap s ! a) = RUNNING"
  shows "status (heap (onClose e a exitCode signal s) ! a) =
           (if timeout_fired s a then TIMED_OUT
            else if cancelRequested (heap s ! a) then CANCELED
            else if signal \<noteq> None then FAILED
            else if exitCode = Some 0 then SUCCEEDED
            else FAILED) \<and>
         code (heap (onClose e a exitCode signal s) ! a) =
           (if timeout_fired s a \<or> cancelRequested (heap s ! a) \<or> signal \<noteq> None then Some (- 1)
            else if exitCode = None then Some (- 1)
            else exitCode) \<and>
         (timeout_fired s a \<or> cancelRequested (heap s ! a) \<longrightarrow>
            status (heap (onClose e a exitCode signal s) ! a) \<noteq> FAILED)"
proof -
  have w: "wf s"
    using reaches_wf [OF assms(1)] ScriptRunner_keeps [of e0 cfg disk fs] by simp
  from w assms(2,3) obtain x where x: "execs s a = Some x" and nf: "\<not> finished x"
    by (auto simp: wf_def execs_ok_def)
  note r = finishJob_result [OF w x nf, of e]
  show ?thesis
    using x r [of TIMED_OUT "- 1"] r [of CANCELED "- 1"] r [of FAILED "- 1"] r [of SUCCEEDED 0]
      r [of FAILED "case exitCode of None \<Rightarrow> - 1 | Some n \<Rightarrow> n"]
    by (cases exitCode) (simp_all add: onClose_def timeout_fired_def)
qed

lemma demo_start_eval:
  "demo_start =
     \<lparr>scriptMap = [(''slow'', demo_script)], maxConcurrent = 1, defaultMode = ''sync'',
      jobStoreFile = ''jobs.json'', logsDir = ''logs'', maxLogBytesPerStream = 4,
      previewMaxBytes = 16, runningCount = 0, queue = [], seq = 0, jobs = [], heap = [],
      execs = (\<lambda>a. None), files = (\<lambda>p. None), store = No_file\<rparr>"
  by (simp add: demo_start_def ScriptRunner_def demo_config_def loadJobsFromDisk_def
        or_default_def demo_script_def)

lemma demo_numbers:
  "num_to_string 1000 = ''1000''" "num_to_string 2000 = ''2000''"
  "num_to_string 1 = ''1''" "num_to_string 2 = ''2''"
  by (simp_all add: num_to_string_def dec.simps digit_char_def)

lemmas demo_eval =
  submitRun_def validateRequest_def resolveMode_def createJob_def nextJobId_def
  string_args_def persistJobs_def enqueue_def drainQueue.simps executeJob_body_def
  update_job_def logPath_def serializeJobForStore_def serializeJob_def Let_def
  cancelJob_def cancelAtHead_def finishJob_def onClose_def
  demo_request_def demo_script_def demo_env_def demo_regexp_def demo_numbers

lemma demo_one_eval:
  "demo_one =
     \<lparr>scriptMap = [(''slow'', demo_script)], maxConcurrent = 1, defaultMode = ''sync'',
      jobStoreFile = ''jobs.json'', logsDir = ''logs'', maxLogBytesPerStream = 4,
      previewMaxBytes = 16, runningCount = 1, queue = [], seq = 1,
      jobs = [(''job_1000_1'', 0)], heap = [demo_job1],
      execs = (\<lambda>a. None)(0 \<mapsto> demo_ctx1),
      files = (\<lambda>p. None)(''logs/job_1000_1.stdout.log'' \<mapsto> [],
                         ''logs/job_1000_1.stderr.log'' \<mapsto> []),
      store = Entries [Object (serializeJob demo_job1)]\<rparr>"
  unfolding demo_one_def demo_start_eval
  by (simp add: demo_eval demo_job1_def demo_ctx1_def)

lemma demo_two_eval:
  "demo_two =
     \<lparr>scriptMap = [(''slow'', demo_script)], maxConcurrent = 1, defaultMode = ''sync'',
      jobStoreFile = ''jobs.json'', logsDir = ''logs'', maxLogBytesPerStream = 4,
      previewMaxBytes = 16, runningCount = 1, queue = [(1, demo_script)], seq = 2,
      jobs = [(''job_1000_1'', 0), (''job_2000_2'', 1)], heap = [demo_job1, demo_job2],
      execs = (\<lambda>a. None)(0 \<mapsto> demo_ctx1),
      files = (\<lambda>p. None)(''logs/job_1000_1.stdout.log'' \<mapsto> [],
                         ''logs/job_1000_1.stderr.log'' \<mapsto> []),
      store = Entries [Object (serializeJob demo_job1), Object (serializeJob demo_job2)]\<rparr>"
  unfolding demo_two_def demo_one_eval
  by (simp add: demo_eval demo_job1_def demo_job2_def demo_ctx1_def)

lemma demo_three_eval:
  "demo_three =
     \<lparr>scriptMap = [(''slow'', demo_script)], maxConcurrent = 1, defaultMode = ''sync'',
      jobStoreFile = ''jobs.json'', logsDir = ''logs'', maxLogBytesPerStream = 4,
      previewMaxBytes = 16, runningCount = 1, queue = [(1, demo_script)], seq = 2,
      jobs = [(''job_1000_1'', 0), (''job_2000_2'', 1)],
      heap = [demo_job1,
              demo_job2\<lparr>status := CANCELED, code := Some (- 1), endedAt := Some 3000,
                durationMs := Some 0, cancelRequested := True\<rparr>],
      execs = (\<lambda>a. None)(0 \<mapsto> demo_ctx1),
      files = (\<lambda>p. None)(''logs/job_1000_1.stdout.log'' \<mapsto> [],
                         ''logs/job_1000_1.stderr.log'' \<mapsto> []),
      store = Entries [Object (serializeJob demo_job1),
                Object (serializeJob (demo_job2\<lparr>status := CANCELED, code := Some (- 1),
                  endedAt := Some 3000, durationMs := Some 0\<rparr>))]\<rparr>"
  unfolding demo_three_def demo_two_eval
  by (simp add: demo_eval demo_job1_def demo_job2_def demo_ctx1_def)

lemma demo_three_job:
  "heap demo_three ! Suc 0 =
     demo_job2\<lparr>status := CANCELED, code := Some (- 1), endedAt := Some 3000,
                durationMs := Some 0, cancelRequested := True\<rparr>"
  by (simp add: demo_three_eval)

lemma demo_four_job:
  "heap demo_four ! Suc 0 =
     demo_job2\<lparr>status := CANCELED, code := Some (- 1), endedAt := Some 4000,
                durationMs := Some 0, cancelRequested := True\<rparr>"
  unfolding demo_four_def demo_three_eval
  by (simp add: demo_eval demo_job1_def demo_job2_def demo_ctx1_def)

lemma demo_reaches:
  "reaches (ScriptRunner demo_env demo_config No_file (\<lambda>p. None)) demo_one"
  "reaches (ScriptRunner demo_env demo_config No_file (\<lambda>p. None)) demo_two"
  "reaches (ScriptRunner demo_env demo_config No_file (\<lambda>p. None)) demo_three"
  "reaches (ScriptRunner demo_env demo_config No_file (\<lambda>p. None)) demo_four"
  unfolding demo_four_def demo_three_def demo_two_def demo_one_def demo_start_def
  by (intro reaches_step reaches_refl)+

theorem close_decides_status_witness:
  "reaches (ScriptRunner demo_env demo_config No_file (\<lambda>p. None)) demo_one \<and>
   0 < length (heap demo_one) \<and> status (heap demo_one ! 0) = RUNNING \<and>
   status (heap (onClose demo_env 0 (Some 0) None demo_one) ! 0) = SUCCEEDED \<and>
   code (heap (onClose demo_env 0 (Some 0) None demo_one) ! 0) = Some 0"
proof -
  have a: "0 < length (heap demo_one)" and r: "status (heap demo_one ! 0) = RUNNING"
    and t: "\<not> timeout_fired demo_one 0" and c: "\<not> cancelRequested (heap demo_one ! 0)"
    by (simp_all add: demo_one_eval demo_job1_def demo_ctx1_def timeout_fired_def)
  from close_decides_status [OF demo_reaches(1) a r, of demo_env "Some 0" None] t c
  have "status (heap (onClose demo_env 0 (Some 0) None demo_one) ! 0) = SUCCEEDED \<and>
        code (heap (onClose demo_env 0 (Some 0) None demo_one) ! 0) = Some 0"
    by simp
  with demo_reaches(1) a r show ?thesis by simp
qed

theorem running_at_most_maxConcurrent_witness:
  "0 \<le> cfg_maxConcurrent (cfg_runner demo_config) \<and>
   reaches (ScriptRunner demo_env demo_config No_file (\<lambda>p. None)) demo_two \<and>
   length (heap demo_two) = 2 \<and> count_running (heap demo_two) = 1 \<and>
   int (length (running_jobs demo_two)) \<le> 1 \<and> runningCount demo_two = 1"
proof -
  have h: "0 \<le> cfg_maxConcurrent (cfg_runner demo_config)"
    by (simp add: demo_config_def)
  have l: "length (heap demo_two) = 2" and m: "maxConcurrent demo_two = 1"
    by (simp_all add: demo_two_eval)
  have c: "count_running (heap demo_two) = 1"
    by (simp add: demo_two_eval count_running_def demo_job1_def demo_job2_def)
  from running_at_most_maxConcurrent [OF h demo_reaches(2)] c m
  have "int (length (running_jobs demo_two)) \<le> 1 \<and> runningCount demo_two = 1"
    by simp
  with h demo_reaches(2) l c show ?thesis by simp
qed

text \<open>
  C9. A terminal job does not stay as it is. With one slot, a job waits behind a running
  one and is cancelled at time 3000: it is \<open>canceled\<close> with \<open>endedAt = 3000\<close>, and stays in
  the queue. When the running job's child exits at time 4000, \<open>finishJob\<close> drains the
  queue, \<open>drainQueue\<close> takes the cancelled job from its head and stamps it again:
  \<open>endedAt = 4000\<close>, a second terminal transition of the same job.
\<close>

theorem canceled_job_restamped:
  "reaches (ScriptRunner demo_env demo_config No_file (\<lambda>p. None)) demo_three \<and>
   status (heap demo_three ! 1) = CANCELED \<and> endedAt (heap demo_three ! 1) = Some 3000 \<and>
   demo_four = step (demo_env\<lparr>now := 4000\<rparr>) (Close 0 (Some 0) None) demo_three \<and>
   status (heap demo_four ! 1) = CANCELED \<and> endedAt (heap demo_four ! 1) = Some 4000 \<and>
   getJob ''job_2000_2'' demo_four \<noteq> getJob ''job_2000_2'' demo_three"
proof -
  have j3: "map_of (jobs demo_three) ''job_2000_2'' = Some 1"
    by (simp add: demo_three_eval)
  have "jobs demo_four = jobs demo_three"
    using frame_onClose [of demo_three "demo_env\<lparr>now := 4000\<rparr>" 0 "Some 0" None]
    by (simp add: frame_def demo_four_def)
  with j3 have j4: "map_of (jobs demo_four) ''job_2000_2'' = Some 1"
    by simp
  have s3: "status (heap demo_three ! 1) = CANCELED" and e3: "endedAt (heap demo_three ! 1) = Some 3000"
    and s4: "status (heap demo_four ! 1) = CANCELED" and e4: "endedAt (heap demo_four ! 1) = Some 4000"
    by (simp_all add: demo_three_job demo_four_job)
  have d: "demo_four = step (demo_env\<lparr>now := 4000\<rparr>) (Close 0 (Some 0) None) demo_three"
    by (rule demo_four_def)
  have "endedAt (the (getJob ''job_2000_2'' demo_four)) = Some 4000"
    and "endedAt (the (getJob ''job_2000_2'' demo_three)) = Some 3000"
    using e3 e4 by (simp_all add: getJob_def j3 j4 serializeJob_def)
  then have ne: "getJob ''job_2000_2'' demo_four \<noteq> getJob ''job_2000_2'' demo_three"
    by auto
  from demo_reaches(3) s3 e3 d s4 e4 ne show ?thesis
    by blast
qed

subsection \<open>Cancelling twice\<close>

lemma reaches_jobs_in_heap:
  assumes "reaches (ScriptRunner e0 cfg disk fs) s" and "map_of (jobs s) jid = Some a"
  shows "a < length (heap s)"
proof -
  from reaches_jobs_ok [OF assms(1)] ScriptRunner_keeps [of e0 cfg disk fs]
  have "jobs_ok s" by simp
  moreover from assms(2) have "(jid, a) \<in> set (jobs s)"
    by (rule map_of_SomeD)
  ultimately show ?thesis by (auto simp: jobs_ok_def)
qed

lemma cancelJob_unknown:
  assumes "map_of (jobs s) jid = None"
  shows "cancelJob e jid s = (Error JOB_NOT_FOUND (Job_not_found jid), s)"
  using assms by (simp add: cancelJob_def)

lemma cancelJob_terminal:
  assumes "map_of (jobs s) jid = Some a" and "is_terminal (status (heap s ! a))"
  shows "cancelJob e jid s = (Ok (serializeJob (heap s ! a)), s)"
  using assms by (simp add: cancelJob_def is_terminal_def)

lemma cancelJob_queued:
  assumes "map_of (jobs s) jid = Some a" and "status (heap s ! a) = QUEUED"
    and "a < length (heap s)"
  shows "cancelJob e jid s =
     (Ok (serializeJob ((heap s ! a)\<lparr>cancelRequested := True, status := CANCELED,
            code := Some (- 1), endedAt := Some (now e), durationMs := Some 0\<rparr>)),
      persistJobs e (s\<lparr>heap := (heap s)[a := (heap s ! a)\<lparr>cancelRequested := True,
            status := CANCELED, code := Some (- 1), endedAt := Some (now e),
            durationMs := Some 0\<rparr>]\<rparr>))"
  using assms
  by (simp add: cancelJob_def Let_def update_job_def persistJobs_fields)

lemma cancelJob_other:
  assumes "map_of (jobs s) jid = Some a" and "\<not> is_terminal (status (heap s ! a))"
    and "status (heap s ! a) \<noteq> QUEUED" and "a < length (heap s)"
  shows "cancelJob e jid s =
     (Ok (serializeJob ((heap s ! a)\<lparr>cancelRequested := True\<rparr>)),
      s\<lparr>heap := (heap s)[a := (heap s ! a)\<lparr>cancelRequested := True\<rparr>]\<rparr>)"
  using assms
  by (simp add: cancelJob_def Let_def update_job_def is_terminal_def)

text \<open>
  C8. In a reachable state, cancelling a job a second time (at any later time, with no
  event in between) returns what the first call returned and leaves the runner as the
  first call left it. An unknown id gives \<open>JOB_NOT_FOUND\<close>; a terminal job is returned as
  it is and nothing changes; for a queued job both calls return the same \<open>canceled\<close>
  snapshot.
\<close>

theorem cancelJob_idempotent:
  assumes "reaches (ScriptRunner e0 cfg disk fs) s"
  shows "cancelJob e2 jid (snd (cancelJob e1 jid s)) = cancelJob e1 jid s \<and>
         (map_of (jobs s) jid = None \<longrightarrow>
            cancelJob e1 jid s = (Error JOB_NOT_FOUND (Job_not_found jid), s)) \<and>
         (\<forall>a. map_of (jobs s) jid = Some a \<and> is_terminal (status (heap s ! a)) \<longrightarrow>
            cancelJob e1 jid s = (Ok (serializeJob (heap s ! a)), s)) \<and>
         (\<forall>a. map_of (jobs s) jid = Some a \<and> status (heap s ! a) = QUEUED \<longrightarrow>
            (\<exists>snap. fst (cancelJob e1 jid s) = Ok snap \<and> status snap = CANCELED \<and>
                    fst (cancelJob e2 jid (snd (cancelJob e1 jid s))) = Ok snap))"
proof -
  have idem: "cancelJob e2 jid (snd (cancelJob e1 jid s)) = cancelJob e1 jid s"
  proof (cases "map_of (jobs s) jid")
    case None
    then show ?thesis by (simp add: cancelJob_unknown)
  next
    case (Some a)
    from reaches_jobs_in_heap [OF assms Some] have a: "a < length (heap s)" .
    show ?thesis
    proof (cases "is_terminal (status (heap s ! a))")
      case True
      with Some show ?thesis by (simp add: cancelJob_terminal)
    next
      case nt: False
      show ?thesis
      proof (cases "status (heap s ! a) = QUEUED")
        case True
        define t where "t = snd (cancelJob e1 jid s)"
        have t: "cancelJob e1 jid s = (fst (cancelJob e1 jid s), t)"
          by (simp add: t_def)
        have "map_of (jobs t) jid = Some a" and "is_terminal (status (heap t ! a))"
          and "fst (cancelJob e1 jid s) = Ok (serializeJob (heap t ! a))"
          using Some True a
          by (simp_all add: t_def cancelJob_queued persistJobs_fields is_terminal_def
                serializeJob_def)
        then show ?thesis
          using t by (simp add: cancelJob_terminal t_def [symmetric])
      next
        case False
        define t where "t = snd (cancelJob e1 jid s)"
        have t: "cancelJob e1 jid s = (fst (cancelJob e1 jid s), t)"
          by (simp add: t_def)
        have 1: "map_of (jobs t) jid = Some a" and 2: "\<not> is_terminal (status (heap t ! a))"
          and 3: "status (heap t ! a) \<noteq> QUEUED" and 4: "a < length (heap t)"
          using Some nt False a
          by (simp_all add: t_def cancelJob_other)
        have "cancelJob e2 jid t = cancelJob e1 jid s"
          unfolding cancelJob_other [OF 1 2 3 4] cancelJob_other [OF Some nt False a]
          using a Some nt False
          by (simp add: t_def cancelJob_other)
        then show ?thesis by (simp add: t_def)
      qed
    qed
  qed
  have queued: "\<exists>snap. fst (cancelJob e1 jid s) = Ok snap \<and> status snap = CANCELED \<and>
                    fst (cancelJob e2 jid (snd (cancelJob e1 jid s))) = Ok snap"
    if "map_of (jobs s) jid = Some a \<and> status (heap s ! a) = QUEUED" for a
  proof -
    from that reaches_jobs_in_heap [OF assms] have a: "a < length (heap s)" by blast
    from that a have "\<exists>snap. fst (cancelJob e1 jid s) = Ok snap \<and> status snap = CANCELED"
      by (simp add: cancelJob_queued serializeJob_def)
    then show ?thesis unfolding idem by blast
  qed
  show ?thesis
  proof (intro conjI allI impI)
    show "cancelJob e2 jid (snd (cancelJob e1 jid s)) = cancelJob e1 jid s"
      by (rule idem)
    show "cancelJob e1 jid s = (Error JOB_NOT_FOUND (Job_not_found jid), s)"
      if "map_of (jobs s) jid = None"
      using that by (rule cancelJob_unknown)
    show "cancelJob e1 jid s = (Ok (serializeJob (heap s ! a)), s)"
      if "map_of (jobs s) jid = Some a \<and> is_terminal (status (heap s ! a))" for a
      using that by (simp add: cancelJob_terminal)
    show "\<exists>snap. fst (cancelJob e1 jid s) = Ok snap \<and> status snap = CANCELED \<and>
                    fst (cancelJob e2 jid (snd (cancelJob e1 jid s))) = Ok snap"
      if "map_of (jobs s) jid = Some a \<and> status (heap s ! a) = QUEUED" for a
      using that by (rule queued)
  qed
qed

theorem cancelJob_idempotent_witness:
  "reaches (ScriptRunner demo_env demo_config No_file (\<lambda>p. None)) demo_two \<and>
   map_of (jobs demo_two) ''job_2000_2'' = Some 1 \<and> status (heap demo_two ! 1) = QUEUED \<and>
   cancelJob demo_env ''job_2000_2'' (snd (cancelJob (demo_env\<lparr>now := 3000\<rparr>) ''job_2000_2'' demo_two))
     = cancelJob (demo_env\<lparr>now := 3000\<rparr>) ''job_2000_2'' demo_two \<and>
   (\<exists>snap. fst (cancelJob (demo_env\<lparr>now := 3000\<rparr>) ''job_2000_2'' demo_two) = Ok snap \<and>
       status snap = CANCELED \<and>
       fst (cancelJob demo_env ''job_2000_2''
              (snd (cancelJob (demo_env\<lparr>now := 3000\<rparr>) ''job_2000_2'' demo_two))) = Ok snap)"
proof -
  have k: "map_of (jobs demo_two) ''job_2000_2'' = Some 1"
    and q: "status (heap demo_two ! 1) = QUEUED"
    by (simp_all add: demo_two_eval demo_job2_def)
  from cancelJob_idempotent [OF demo_reaches(2), of demo_env "''job_2000_2''" "demo_env\<lparr>now := 3000\<rparr>"]
    k q demo_reaches(2)
  show ?thesis by blast
qed

subsection \<open>The log sink\<close>

lemma log_step_size:
  assumes "log_size l \<le> cap"
  shows "log_size (log_step cap l cw) \<le> cap"
  using assms
  by (auto simp: log_step_def writeLogChunk_def Let_def)

lemma log_step_sound:
  assumes "fst cw \<noteq> []"
    and "log_size l \<le> n" and "log_truncated l \<longrightarrow> cap < n"
  shows "log_size (log_step cap l cw) \<le> n + int (length (fst cw)) \<and>
         (log_truncated (log_step cap l cw) \<longrightarrow> cap < n + int (length (fst cw)))"
  using assms
  by (cases "fst cw") (auto simp: log_step_def writeLogChunk_def Let_def)

lemma log_step_exact:
  assumes "fst cw \<noteq> []" and "snd cw" and "0 \<le> cap"
    and "log_size l = min cap n" and "log_truncated l = (cap < n)" and "0 \<le> n"
  shows "log_size (log_step cap l cw) = min cap (n + int (length (fst cw))) \<and>
         log_truncated (log_step cap l cw) = (cap < n + int (length (fst cw)))"
  using assms
  by (cases "fst cw") (auto simp: log_step_def writeLogChunk_def Let_def min_def)

lemma feed_snoc: "feed cap (evs @ [cw]) = log_step cap (feed cap evs) cw"
  by (simp add: feed_def)

lemma attempted_snoc: "attempted (evs @ [cw]) = attempted evs + int (length (fst cw))"
  by (simp add: attempted_def)

lemma attempted_nonneg: "0 \<le> attempted evs"
  by (induction evs) (simp_all add: attempted_def)

lemma feed_size:
  assumes "0 \<le> cap"
  shows "log_size (feed cap evs) \<le> cap"
proof (induction evs rule: rev_induct)
  case Nil
  from assms show ?case by (simp add: feed_def log_start_def)
next
  case (snoc cw evs)
  then show ?case by (simp add: feed_snoc log_step_size)
qed

lemma feed_sound:
  assumes "\<forall>cw \<in> set evs. fst cw \<noteq> []"
  shows "log_size (feed cap evs) \<le> attempted evs \<and>
         (log_truncated (feed cap evs) \<longrightarrow> cap < attempted evs)"
  using assms
proof (induction evs rule: rev_induct)
  case Nil
  show ?case by (simp add: feed_def log_start_def attempted_def)
next
  case (snoc cw evs)
  then have ne: "fst cw \<noteq> []"
    and ih: "log_size (feed cap evs) \<le> attempted evs"
      "log_truncated (feed cap evs) \<longrightarrow> cap < attempted evs"
    by simp_all
  from log_step_sound [OF ne ih] show ?case
    by (simp add: feed_snoc attempted_snoc)
qed

lemma feed_exact:
  assumes "0 \<le> cap" and "\<forall>cw \<in> set evs. fst cw \<noteq> [] \<and> snd cw"
  shows "log_size (feed cap evs) = min cap (attempted evs) \<and>
         log_truncated (feed cap evs) = (cap < attempted evs)"
  using assms(2)
proof (induction evs rule: rev_induct)
  case Nil
  from assms(1) show ?case by (simp add: feed_def log_start_def attempted_def)
next
  case (snoc cw evs)
  then have ne: "fst cw \<noteq> []" and ok: "snd cw"
    and ih: "log_size (feed cap evs) = min cap (attempted evs)"
      "log_truncated (feed cap evs) = (cap < attempted evs)"
    by simp_all
  from log_step_exact [OF ne ok assms(1) ih attempted_nonneg] show ?case
    by (simp add: feed_snoc attempted_snoc)
qed

text \<open>The handler of a stream's \<open>data\<close> event does to the job and its file what \<open>log_step\<close> says.\<close>

lemma log_of_set_log:
  "log_of k (set_log k l j) (Some (log_content l)) = l"
  by (cases k) (simp_all add: log_of_def set_log_def)

lemma log_content_log_of:
  "log_content (log_of k j f) = (case f of None \<Rightarrow> [] | Some c \<Rightarrow> c)"
  by (simp add: log_of_def)

lemma log_of_set_log_same:
  assumes "log_content l = log_content (log_of k j f)"
  shows "log_of k (set_log k l j) f = l"
  using assms by (cases k; cases f) (simp_all add: log_of_def set_log_def)

lemma onData_log_step:
  assumes "execs s a = Some x" and "a < length (heap s)"
  shows "log_of k (heap (onData e a k chunk s) ! a)
           (files (onData e a k chunk s) (logPath e s (stream_ref k (heap s ! a)))) =
         log_step (maxLogBytesPerStream s)
           (log_of k (heap s ! a) (files s (logPath e s (stream_ref k (heap s ! a)))))
           (chunk, (case k of Stdout \<Rightarrow> stdoutFd x | Stderr \<Rightarrow> stderrFd x) \<and> write_error e = None)"
proof -
  define p where "p = logPath e s (stream_ref k (heap s ! a))"
  define l0 where "l0 = log_of k (heap s ! a) (files s p)"
  define w where "w = ((case k of Stdout \<Rightarrow> stdoutFd x | Stderr \<Rightarrow> stderrFd x) \<and> write_error e = None)"
  show ?thesis
  proof (cases "writeLogChunk (maxLogBytesPerStream s) w chunk l0")
    case (Inl u)
    with assms show ?thesis
      by (simp add: onData_def Let_def log_step_def p_def [symmetric] l0_def [symmetric]
            w_def [symmetric])
  next
    case (Inr l)
    with assms show ?thesis
      by (simp add: onData_def Let_def log_step_def p_def [symmetric] l0_def [symmetric]
            w_def [symmetric] update_job_fields log_of_set_log log_of_set_log_same)
  qed
qed

text \<open>
  C4, as amended. With a cap that is not negative, the size of a log never exceeds the cap,
  after any number of chunks. When no chunk is empty, the flag is set only if the
  producer wrote more than the cap; when moreover every write succeeded, the flag is set
  exactly if the producer wrote more than the cap, and the size is the smaller of the
  cap and what the producer wrote. (A stream of a child never delivers an empty chunk.)
\<close>

theorem log_capped:
  assumes "0 \<le> cap"
  shows "(\<forall>n. log_size (feed cap (take n evs)) \<le> cap) \<and>
         ((\<forall>cw \<in> set evs. fst cw \<noteq> []) \<longrightarrow>
            (log_truncated (feed cap evs) \<longrightarrow> cap < attempted evs)) \<and>
         ((\<forall>cw \<in> set evs. fst cw \<noteq> [] \<and> snd cw) \<longrightarrow>
            log_truncated (feed cap evs) = (cap < attempted evs) \<and>
            log_size (feed cap evs) = min cap (attempted evs))"
  using feed_size [OF assms] feed_sound [of evs cap] feed_exact [OF assms, of evs]
  by blast

text \<open>
  The claim as it stands fails when a write fails: three bytes are lost to a failed write,
  two more are written, and the producer has written five bytes against a cap of four
  while the flag is not set.
\<close>

theorem log_flag_counterexample:
  "4 < attempted [(''abc'', False), (''de'', True)] \<and>
   \<not> log_truncated (feed 4 [(''abc'', False), (''de'', True)]) \<and>
   log_size (feed 4 [(''abc'', False), (''de'', True)]) = 2"
  by (simp add: attempted_def feed_def log_start_def log_step_def writeLogChunk_def Let_def)

theorem log_capped_witness:
  "(0::int) \<le> 4 \<and> attempted [(''abc'', True), (''de'', True)] = 5 \<and>
   log_truncated (feed 4 [(''abc'', True), (''de'', True)]) \<and>
   log_size (feed 4 [(''abc'', True), (''de'', True)]) = 4 \<and>
   log_size (feed 4 (take 1 [(''abc'', True), (''de'', True)])) \<le> 4"
proof -
  have h: "(0::int) \<le> 4" by simp
  have a: "attempted [(''abc'', True), (''de'', True)] = 5"
    by (simp add: attempted_def)
  have ok: "\<forall>cw \<in> set [(''abc'', True), (''de'', True)]. fst cw \<noteq> [] \<and> snd cw"
    by simp
  note t = log_capped [OF h, of "[(''abc'', True), (''de'', True)]"]
  from t have p: "log_size (feed 4 (take 1 [(''abc'', True), (''de'', True)])) \<le> 4"
    by blast
  from t ok a
  have "log_truncated (feed 4 [(''abc'', True), (''de'', True)]) \<and>
        log_size (feed 4 [(''abc'', True), (''de'', True)]) = 4"
    by simp
  with h a p show ?thesis by blast
qed

lemma zero_start_eval:
  "zero_start =
     \<lparr>scriptMap = [(''slow'', demo_script)], maxConcurrent = 1, defaultMode = ''sync'',
      jobStoreFile = ''jobs.json'', logsDir = ''logs'', maxLogBytesPerStream = 1048576,
      previewMaxBytes = 16, runningCount = 0, queue = [], seq = 0, jobs = [], heap = [],
      execs = (\<lambda>a. None), files = (\<lambda>p. None), store = No_file\<rparr>"
  by (simp add: zero_start_def zero_cap_config_def ScriptRunner_def demo_config_def
        loadJobsFromDisk_def or_default_def demo_script_def)

lemma zero_one_eval:
  "zero_one =
     \<lparr>scriptMap = [(''slow'', demo_script)], maxConcurrent = 1, defaultMode = ''sync'',
      jobStoreFile = ''jobs.json'', logsDir = ''logs'', maxLogBytesPerStream = 1048576,
      previewMaxBytes = 16, runningCount = 1, queue = [], seq = 1,
      jobs = [(''job_1000_1'', 0)], heap = [demo_job1],
      execs = (\<lambda>a. None)(0 \<mapsto> demo_ctx1),
      files = (\<lambda>p. None)(''logs/job_1000_1.stdout.log'' \<mapsto> [],
                         ''logs/job_1000_1.stderr.log'' \<mapsto> []),
      store = Entries [Object (serializeJob demo_job1)]\<rparr>"
  unfolding zero_one_def zero_start_eval
  by (simp add: demo_eval demo_job1_def demo_ctx1_def)

text \<open>
  C5. A runner configured with \<open>maxLogBytesPerStream = 0\<close> has a cap of 1 MiB: the
  constructor's \<open>||\<close> takes \<open>0\<close> for a missing value. The two bytes a child writes are in
  the log file, and the flag is not set. (With a cap of \<open>0\<close> the log-write step itself
  writes nothing and sets the flag.)
\<close>

theorem zero_cap_not_honoured:
  "cfg_maxLogBytesPerStream (cfg_runner zero_cap_config) = Some 0 \<and>
   maxLogBytesPerStream (ScriptRunner demo_env zero_cap_config No_file (\<lambda>p. None)) = 1048576 \<and>
   reaches (ScriptRunner demo_env zero_cap_config No_file (\<lambda>p. None)) zero_data \<and>
   files zero_data ''logs/job_1000_1.stdout.log'' = Some ''hi'' \<and>
   stdoutSize (heap zero_data ! 0) = 2 \<and>
   \<not> stdoutTruncated (heap zero_data ! 0) \<and>
   log_step 0 log_start (''hi'', True) =
     \<lparr>log_size = 0, log_truncated = True, log_content = []\<rparr>"
proof -
  have c: "cfg_maxLogBytesPerStream (cfg_runner zero_cap_config) = Some 0"
    by (simp add: zero_cap_config_def)
  have m: "maxLogBytesPerStream (ScriptRunner demo_env zero_cap_config No_file (\<lambda>p. None)) = 1048576"
    unfolding zero_start_def [symmetric] zero_start_eval by simp
  have r: "reaches (ScriptRunner demo_env zero_cap_config No_file (\<lambda>p. None)) zero_data"
    unfolding zero_data_def zero_one_def zero_start_def
    by (intro reaches_step reaches_refl)
  have d: "files zero_data ''logs/job_1000_1.stdout.log'' = Some ''hi''"
    "stdoutSize (heap zero_data ! 0) = 2" "\<not> stdoutTruncated (heap zero_data ! 0)"
    unfolding zero_data_def zero_one_eval
    by (simp_all add: onData_def writeLogChunk_def log_of_def set_log_def stream_ref_def
          update_job_def logPath_def appendTailBuffer_def Let_def demo_env_def demo_job1_def
          demo_ctx1_def)
  have l: "log_step 0 log_start (''hi'', True) =
     \<lparr>log_size = 0, log_truncated = True, log_content = []\<rparr>"
    by (simp add: log_step_def log_start_def writeLogChunk_def)
  from c m r d l show ?thesis by blast
qed

subsection \<open>Validation of a request\<close>

lemma check_items_code:
  "check_items test maxLen i vs = Some (c, m) \<Longrightarrow> c = INVALID_ARGS"
  by (induction vs arbitrary: i) (auto split: jsval.splits if_splits)

lemma check_items_None:
  "check_items test (itemMaxLength sc) i vs = None \<longleftrightarrow> \<not> list_ex (item_violates test sc) vs"
  by (induction vs arbitrary: i) (auto simp: item_violates_def split: jsval.splits)

lemma check_items_rejects:
  assumes "list_ex (item_violates test sc) vs"
  shows "\<exists>m. check_items test (itemMaxLength sc) i vs = Some (INVALID_ARGS, m)"
proof (cases "check_items test (itemMaxLength sc) i vs")
  case None
  with assms show ?thesis by (simp add: check_items_None)
next
  case (Some cm)
  then show ?thesis
    using check_items_code [of test "itemMaxLength sc" i vs "fst cm" "snd cm"]
    by (cases cm) simp
qed

lemma validateRequest_unknown:
  assumes "lookup_script s sid = None" and "toString_ok sid"
  shows "validateRequest e s sid as = Inr (Invalid SCRIPT_NOT_FOUND (Script_not_found sid))"
  using assms by (simp add: validateRequest_def lookup_script_def)

lemma validateRequest_unconvertible:
  assumes "lookup_script s sid = None" and "\<not> toString_ok sid"
  shows "validateRequest e s sid as = Inl TypeError"
  using assms by (simp add: validateRequest_def lookup_script_def)

lemma validateRequest_shape:
  assumes "lookup_script s sid = Some sc" and "shape_violates sc as"
  shows "\<exists>m. validateRequest e s sid as = Inr (Invalid INVALID_ARGS m)"
  using assms
  by (cases as) (simp_all add: validateRequest_def lookup_script_def shape_violates_def)

lemma validateRequest_items:
  assumes "lookup_script s sid = Some sc" and "regexp e (itemPattern sc) = Some test"
    and "items_violate test sc as"
  shows "\<exists>m. validateRequest e s sid as = Inr (Invalid INVALID_ARGS m)"
proof -
  from assms(3) obtain vs where as: "as = JArray vs" and v: "list_ex (item_violates test sc) vs"
    by (cases as) (simp_all add: items_violate_def)
  from check_items_rejects [OF v, of 0] obtain m
    where "check_items test (itemMaxLength sc) 0 vs = Some (INVALID_ARGS, m)" by blast
  with assms(1,2) as show ?thesis
    by (simp add: validateRequest_def lookup_script_def)
qed

lemma validateRequest_pattern:
  assumes "lookup_script s sid = Some sc" and "\<not> shape_violates sc as"
    and "regexp e (itemPattern sc) = None"
  shows "validateRequest e s sid as = Inl (SyntaxError (itemPattern sc))"
  using assms
  by (cases as) (simp_all add: validateRequest_def lookup_script_def shape_violates_def)

lemma submitRun_invalid:
  assumes "validateRequest e s (req_scriptId r) (effective_args r) = Inr (Invalid c m)"
  shows "submitRun e r s = (Inr (Rejected c m), s)"
  using assms by (simp add: submitRun_def effective_args_def)

lemma submitRun_throws:
  assumes "validateRequest e s (req_scriptId r) (effective_args r) = Inl x"
  shows "submitRun e r s = (Inl x, s)"
  using assms by (simp add: submitRun_def effective_args_def)

text \<open>
  C3, as amended. A request that names an unknown script by a value that converts to a
  string is rejected with \<open>SCRIPT_NOT_FOUND\<close>; a request for a known script whose arguments
  are not an array or are more than \<open>maxItems\<close> is rejected with \<open>INVALID_ARGS\<close>; so is,
  when the script's \<open>itemPattern\<close> is a regular expression, one with an argument that is
  no string, is longer than \<open>itemMaxLength\<close> or does not match the pattern. Two kinds of
  request make \<open>submitRun\<close> throw instead: an unknown \<open>scriptId\<close> that does not convert to a
  string (a \<open>TypeError\<close>), and an array of at most \<open>maxItems\<close> arguments for a script
  whose \<open>itemPattern\<close> is no regular expression (a \<open>SyntaxError\<close>). In each of these
  cases the runner is left as it was: no job is created, and job map, queue and store are
  unchanged.
\<close>

theorem submitRun_rejects:
  "(lookup_script s (req_scriptId r) = None \<and> toString_ok (req_scriptId r) \<longrightarrow>
      submitRun e r s = (Inr (Rejected SCRIPT_NOT_FOUND (Script_not_found (req_scriptId r))), s)) \<and>
   (lookup_script s (req_scriptId r) = None \<and> \<not> toString_ok (req_scriptId r) \<longrightarrow>
      submitRun e r s = (Inl TypeError, s)) \<and>
   (\<forall>sc. lookup_script s (req_scriptId r) = Some sc \<and> shape_violates sc (effective_args r) \<longrightarrow>
      (\<exists>m. submitRun e r s = (Inr (Rejected INVALID_ARGS m), s))) \<and>
   (\<forall>sc test. lookup_script s (req_scriptId r) = Some sc \<and>
        regexp e (itemPattern sc) = Some test \<and> items_violate test sc (effective_args r) \<longrightarrow>
      (\<exists>m. submitRun e r s = (Inr (Rejected INVALID_ARGS m), s))) \<and>
   (\<forall>sc. lookup_script s (req_scriptId r) = Some sc \<and>
        \<not> shape_violates sc (effective_args r) \<and> regexp e (itemPattern sc) = None \<longrightarrow>
      submitRun e r s = (Inl (SyntaxError (itemPattern sc)), s))"
proof (intro conjI allI impI)
  assume "lookup_script s (req_scriptId r) = None \<and> toString_ok (req_scriptId r)"
  then have "validateRequest e s (req_scriptId r) (effective_args r) =
      Inr (Invalid SCRIPT_NOT_FOUND (Script_not_found (req_scriptId r)))"
    using validateRequest_unknown by blast
  from submitRun_invalid [OF this]
  show "submitRun e r s = (Inr (Rejected SCRIPT_NOT_FOUND (Script_not_found (req_scriptId r))), s)" .
next
  assume "lookup_script s (req_scriptId r) = None \<and> \<not> toString_ok (req_scriptId r)"
  then have "validateRequest e s (req_scriptId r) (effective_args r) = Inl TypeError"
    using validateRequest_unconvertible by blast
  from submitRun_throws [OF this] show "submitRun e r s = (Inl TypeError, s)" .
next
  fix sc
  assume "lookup_script s (req_scriptId r) = Some sc \<and> shape_violates sc (effective_args r)"
  then obtain m where
    "validateRequest e s (req_scriptId r) (effective_args r) = Inr (Invalid INVALID_ARGS m)"
    using validateRequest_shape by blast
  from submitRun_invalid [OF this]
  show "\<exists>m. submitRun e r s = (Inr (Rejected INVALID_ARGS m), s)" by blast
next
  fix sc test
  assume "lookup_script s (req_scriptId r) = Some sc \<and>
        regexp e (itemPattern sc) = Some test \<and> items_violate test sc (effective_args r)"
  then obtain m where
    "validateRequest e s (req_scriptId r) (effective_args r) = Inr (Invalid INVALID_ARGS m)"
    using validateRequest_items by blast
  from submitRun_invalid [OF this]
  show "\<exists>m. submitRun e r s = (Inr (Rejected INVALID_ARGS m), s)" by blast
next
  fix sc
  assume "lookup_script s (req_scriptId r) = Some sc \<and>
        \<not> shape_violates sc (effective_args r) \<and> regexp e (itemPattern sc) = None"
  then have "validateRequest e s (req_scriptId r) (effective_args r) =
      Inl (SyntaxError (itemPattern sc))"
    using validateRequest_pattern by blast
  from submitRun_throws [OF this]
  show "submitRun e r s = (Inl (SyntaxError (itemPattern sc)), s)" .
qed

text \<open>
  The claim as it stands fails in two ways. For a script whose pattern is not a regular
  expression, the number among the arguments violates the constraints, and \<open>submitRun\<close>
  throws the \<open>SyntaxError\<close> of \<open>new RegExp\<close> instead of returning \<open>INVALID_ARGS\<close>. For a
  \<open>scriptId\<close> that is an object with an own property \<open>toString\<close>, no script is known, and
  \<open>submitRun\<close> throws the \<open>TypeError\<close> of the message's template literal instead of
  returning \<open>SCRIPT_NOT_FOUND\<close>.
\<close>

lemma bad_pattern_start_eval:
  "bad_pattern_start =
     \<lparr>scriptMap = [(''slow'', demo_script\<lparr>itemPattern := ''(''\<rparr>)], maxConcurrent = 1,
      defaultMode = ''sync'', jobStoreFile = ''jobs.json'', logsDir = ''logs'',
      maxLogBytesPerStream = 4, previewMaxBytes = 16, runningCount = 0, queue = [], seq = 0,
      jobs = [], heap = [], execs = (\<lambda>a. None), files = (\<lambda>p. None), store = No_file\<rparr>"
  by (simp add: bad_pattern_start_def bad_pattern_config_def ScriptRunner_def demo_config_def
        loadJobsFromDisk_def or_default_def demo_script_def)

theorem submitRun_throws_counterexample:
  "lookup_script bad_pattern_start (req_scriptId number_request) =
     Some (demo_script\<lparr>itemPattern := ''(''\<rparr>) \<and>
   effective_args number_request = JArray [JInt 5] \<and>
   item_violates (\<lambda>x. True) (demo_script\<lparr>itemPattern := ''(''\<rparr>) (JInt 5) \<and>
   submitRun demo_env number_request bad_pattern_start =
     (Inl (SyntaxError ''(''), bad_pattern_start) \<and>
   lookup_script demo_start (req_scriptId object_request) = None \<and>
   submitRun demo_env object_request demo_start = (Inl TypeError, demo_start)"
  unfolding bad_pattern_start_eval
  by (simp add: lookup_script_def number_request_def object_request_def effective_args_def
        item_violates_def submitRun_def validateRequest_def demo_script_def demo_env_def
        demo_regexp_def)

text \<open>
  The cases of the theorem on the example runners: an unknown name, the object, arguments
  that are no array, too many arguments, a slash the pattern excludes, and the number
  under the pattern that is no regular expression.
\<close>

theorem submitRun_rejects_witness:
  "(lookup_script demo_start (req_scriptId unknown_request) = None \<and>
    toString_ok (req_scriptId unknown_request) \<and>
    submitRun demo_env unknown_request demo_start =
      (Inr (Rejected SCRIPT_NOT_FOUND (Script_not_found (JString ''fast''))), demo_start)) \<and>
   (lookup_script demo_start (req_scriptId object_request) = None \<and>
    \<not> toString_ok (req_scriptId object_request) \<and>
    submitRun demo_env object_request demo_start = (Inl TypeError, demo_start)) \<and>
   (lookup_script demo_start (req_scriptId null_args_request) = Some demo_script \<and>
    shape_violates demo_script (effective_args null_args_request) \<and>
    (\<exists>m. submitRun demo_env null_args_request demo_start =
           (Inr (Rejected INVALID_ARGS m), demo_start))) \<and>
   (lookup_script demo_start (req_scriptId long_request) = Some demo_script \<and>
    shape_violates demo_script (effective_args long_request) \<and>
    (\<exists>m. submitRun demo_env long_request demo_start =
           (Inr (Rejected INVALID_ARGS m), demo_start))) \<and>
   (lookup_script demo_start (req_scriptId slash_request) = Some demo_script \<and>
    items_violate (\<lambda>v. v \<noteq> [] \<and> list_all (\<lambda>c. c \<in> set ''abcdefghijklmnopqrstuvwxyz'') v)
      demo_script (effective_args slash_request) \<and>
    (\<exists>m. submitRun demo_env slash_request demo_start =
           (Inr (Rejected INVALID_ARGS m), demo_start))) \<and>
   (lookup_script bad_pattern_start (req_scriptId number_request) =
      Some (demo_script\<lparr>itemPattern := ''(''\<rparr>) \<and>
    \<not> shape_violates (demo_script\<lparr>itemPattern := ''(''\<rparr>) (effective_args number_request) \<and>
    regexp demo_env ''('' = None \<and>
    submitRun demo_env number_request bad_pattern_start =
      (Inl (SyntaxError ''(''), bad_pattern_start))"
proof -
  define test :: "string \<Rightarrow> bool"
    where "test = (\<lambda>v. v \<noteq> [] \<and> list_all (\<lambda>c. c \<in> set ''abcdefghijklmnopqrstuvwxyz'') v)"
  define bad where "bad = demo_script\<lparr>itemPattern := ''(''\<rparr>"
  have u: "lookup_script demo_start (req_scriptId unknown_request) = None"
    by (simp add: lookup_script_def demo_start_eval unknown_request_def)
  have uc: "toString_ok (req_scriptId unknown_request)"
    by (simp add: unknown_request_def)
  have o: "lookup_script demo_start (req_scriptId object_request) = None"
    by (simp add: lookup_script_def object_request_def)
  have oc: "\<not> toString_ok (req_scriptId object_request)"
    by (simp add: object_request_def)
  have n: "lookup_script demo_start (req_scriptId null_args_request) = Some demo_script"
    by (simp add: lookup_script_def demo_start_eval null_args_request_def)
  have nv: "shape_violates demo_script (effective_args null_args_request)"
    by (simp add: shape_violates_def effective_args_def null_args_request_def)
  have g: "lookup_script demo_start (req_scriptId long_request) = Some demo_script"
    by (simp add: lookup_script_def demo_start_eval long_request_def)
  have gv: "shape_violates demo_script (effective_args long_request)"
    by (simp add: shape_violates_def effective_args_def long_request_def demo_script_def)
  have l: "lookup_script demo_start (req_scriptId slash_request) = Some demo_script"
    by (simp add: lookup_script_def demo_start_eval slash_request_def)
  have c: "regexp demo_env (itemPattern demo_script) = Some test"
    by (simp add: demo_env_def demo_regexp_def demo_script_def test_def)
  have v: "items_violate test demo_script (effective_args slash_request)"
    by (simp add: items_violate_def item_violates_def effective_args_def slash_request_def
          test_def demo_script_def)
  have b: "lookup_script bad_pattern_start (req_scriptId number_request) = Some bad"
    by (simp add: lookup_script_def bad_pattern_start_eval number_request_def bad_def)
  have bs: "\<not> shape_violates bad (effective_args number_request)"
    by (simp add: shape_violates_def effective_args_def number_request_def bad_def
          demo_script_def)
  have bp: "regexp demo_env (itemPattern bad) = None"
    by (simp add: demo_env_def demo_regexp_def bad_def)
  have bi: "itemPattern bad = ''(''"
    by (simp add: bad_def)
  from submitRun_rejects [of demo_start unknown_request demo_env] u uc
  have 1: "submitRun demo_env unknown_request demo_start =
      (Inr (Rejected SCRIPT_NOT_FOUND (Script_not_found (JString ''fast''))), demo_start)"
    by (simp add: unknown_request_def)
  from submitRun_rejects [of demo_start object_request demo_env] o oc
  have 2: "submitRun demo_env object_request demo_start = (Inl TypeError, demo_start)"
    by blast
  from submitRun_rejects [of demo_start null_args_request demo_env] n nv
  have 3: "\<exists>m. submitRun demo_env null_args_request demo_start =
      (Inr (Rejected INVALID_ARGS m), demo_start)"
    by blast
  from submitRun_rejects [of demo_start long_request demo_env] g gv
  have 4: "\<exists>m. submitRun demo_env long_request demo_start =
      (Inr (Rejected INVALID_ARGS m), demo_start)"
    by blast
  from submitRun_rejects [of demo_start slash_request demo_env] l c v
  have 5: "\<exists>m. submitRun demo_env slash_request demo_start =
      (Inr (Rejected INVALID_ARGS m), demo_start)"
    by blast
  from submitRun_rejects [of bad_pattern_start number_request demo_env] b bs bp
  have 6: "submitRun demo_env number_request bad_pattern_start =
      (Inl (SyntaxError (itemPattern bad)), bad_pattern_start)"
    by blast
  from u uc 1 have A: "lookup_script demo_start (req_scriptId unknown_request) = None \<and>
    toString_ok (req_scriptId unknown_request) \<and>
    submitRun demo_env unknown_request demo_start =
      (Inr (Rejected SCRIPT_NOT_FOUND (Script_not_found (JString ''fast''))), demo_start)"
    by blast
  from o oc 2 have B: "lookup_script demo_start (req_scriptId object_request) = None \<and>
    \<not> toString_ok (req_scriptId object_request) \<and>
    submitRun demo_env object_request demo_start = (Inl TypeError, demo_start)"
    by blast
  from n nv 3 have C: "lookup_script demo_start (req_scriptId null_args_request) = Some demo_script \<and>
    shape_violates demo_script (effective_args null_args_request) \<and>
    (\<exists>m. submitRun demo_env null_args_request demo_start =
           (Inr (Rejected INVALID_ARGS m), demo_start))"
    by blast
  from g gv 4 have D: "lookup_script demo_start (req_scriptId long_request) = Some demo_script \<and>
    shape_violates demo_script (effective_args long_request) \<and>
    (\<exists>m. submitRun demo_env long_request demo_start =
           (Inr (Rejected INVALID_ARGS m), demo_start))"
    by blast
  from l v 5 have E: "lookup_script demo_start (req_scriptId slash_request) = Some demo_script \<and>
    items_violate test demo_script (effective_args slash_request) \<and>
    (\<exists>m. submitRun demo_env slash_request demo_start =
           (Inr (Rejected INVALID_ARGS m), demo_start))"
    by blast
  from b bs bp 6 bi have F: "lookup_script bad_pattern_start (req_scriptId number_request) = Some bad \<and>
    \<not> shape_violates bad (effective_args number_request) \<and>
    regexp demo_env ''('' = None \<and>
    submitRun demo_env number_request bad_pattern_start =
      (Inl (SyntaxError ''(''), bad_pattern_start)"
    by simp
  from A B C D E F show ?thesis
    unfolding test_def bad_def by blast
qed

subsection \<open>Loading the job store\<close>

lemma jobId_recover: "jobId (recover e r) = jobId r"
  by (simp add: recover_def Let_def split: option.split)

lemma serializeJob_job_of_record: "serializeJob (job_of_record r) = r"
  by (simp add: serializeJob_def job_of_record_def)

lemma cancelRequested_job_of_record: "cancelRequested (job_of_record r) = False"
  by (simp add: job_of_record_def)

lemma recover_explicit:
  "recover e r =
     (if status r = QUEUED \<or> status r = RUNNING
      then r\<lparr>status := FAILED, code := Some (- 1), endedAt := Some (now e),
             durationMs := (case startedAt r of
                              None \<Rightarrow> durationMs r
                            | Some t \<Rightarrow> Some (max 0 (now e - t)))\<rparr>
      else r)"
  by (cases "startedAt r") (auto simp: recover_def Let_def)

lemma entry_ids_Cons:
  "entry_ids (en # es) =
     (case en of Non_object \<Rightarrow> [] | Object r \<Rightarrow> if jobId r = [] then [] else [jobId r])
     @ entry_ids es"
  by (simp add: entry_ids_def)

lemma loadEntry_here:
  assumes "jobId r \<noteq> []"
  shows "map_of (jobs (loadEntry e (Object r) s)) (jobId r) = Some (length (heap s))"
    and "heap (loadEntry e (Object r) s) ! length (heap s) = job_of_record (recover e r)"
    and "length (heap s) < length (heap (loadEntry e (Object r) s))"
  using assms
  by (simp_all add: loadEntry_def Let_def jobId_recover update_conv')

lemma loadEntry_elsewhere:
  assumes "map_of (jobs s) k = Some a" and "a < length (heap s)"
    and "k \<notin> set (entry_ids [en])"
  shows "map_of (jobs (loadEntry e en s)) k = Some a \<and>
         a < length (heap (loadEntry e en s)) \<and>
         heap (loadEntry e en s) ! a = heap s ! a"
proof (cases en)
  case Non_object
  with assms show ?thesis by (simp add: loadEntry_def)
next
  case (Object r)
  with assms show ?thesis
    by (auto simp: loadEntry_def Let_def jobId_recover update_conv' entry_ids_def nth_append
          split: if_splits)
qed

lemma fold_loadEntry_elsewhere:
  assumes "map_of (jobs s) k = Some a" and "a < length (heap s)"
    and "k \<notin> set (entry_ids es)"
  shows "map_of (jobs (fold (loadEntry e) es s)) k = Some a \<and>
         heap (fold (loadEntry e) es s) ! a = heap s ! a"
  using assms
proof (induction es arbitrary: s)
  case Nil
  then show ?case by simp
next
  case (Cons en es)
  from Cons.prems(3) have 1: "k \<notin> set (entry_ids [en])" and 2: "k \<notin> set (entry_ids es)"
    by (simp_all add: entry_ids_def)
  from loadEntry_elsewhere [OF Cons.prems(1,2) 1, where e = e]
  have m: "map_of (jobs (loadEntry e en s)) k = Some a"
    and l: "a < length (heap (loadEntry e en s))"
    and h: "heap (loadEntry e en s) ! a = heap s ! a"
    by simp_all
  from Cons.IH [OF m l 2] h show ?case by simp
qed

lemma fold_loadEntry_dom:
  "map_of (jobs (fold (loadEntry e) es s)) k \<noteq> None \<longleftrightarrow>
     map_of (jobs s) k \<noteq> None \<or> k \<in> set (entry_ids es)"
proof (induction es arbitrary: s)
  case Nil
  show ?case by (simp add: entry_ids_def)
next
  case (Cons en es)
  have "map_of (jobs (loadEntry e en s)) k \<noteq> None \<longleftrightarrow>
          map_of (jobs s) k \<noteq> None \<or> k \<in> set (entry_ids [en])"
    by (cases en) (auto simp: loadEntry_def Let_def jobId_recover update_conv' entry_ids_def)
  with Cons.IH [of "loadEntry e en s"] show ?case
    by (auto simp: entry_ids_Cons entry_ids_def)
qed

lemma ScriptRunner_Entries:
  "\<exists>s0. jobs s0 = [] \<and> heap s0 = [] \<and>
        ScriptRunner e cfg (Entries es) fs = fold (loadEntry e) es s0"
proof -
  define s0 where "s0 =
       \<lparr>scriptMap = fold (\<lambda>sc m. AList.update (script_id sc) sc m) (cfg_scripts cfg) [],
        maxConcurrent = cfg_maxConcurrent (cfg_runner cfg),
        defaultMode = cfg_defaultMode (cfg_runner cfg),
        jobStoreFile = cfg_jobStoreFile (cfg_runner cfg),
        logsDir =
          (if cfg_logsDir (cfg_runner cfg) \<noteq> [] then cfg_logsDir (cfg_runner cfg)
           else path_join e (path_dirname e (cfg_jobStoreFile (cfg_runner cfg))) ''logs''),
        maxLogBytesPerStream = or_default (cfg_maxLogBytesPerStream (cfg_runner cfg)) (1024 * 1024),
        previewMaxBytes = or_default (cfg_previewMaxBytes (cfg_runner cfg)) 4096,
        runningCount = 0,
        queue = [],
        seq = 0,
        jobs = [],
        heap = [],
        execs = (\<lambda>_. None),
        files = fs,
        store = Entries es\<rparr>"
  have "jobs s0 = []" and "heap s0 = []"
    by (simp_all add: s0_def)
  moreover have "ScriptRunner e cfg (Entries es) fs = fold (loadEntry e) es s0"
    unfolding ScriptRunner_def loadJobsFromDisk_def s0_def by simp
  ultimately show ?thesis by blast
qed

text \<open>
  C7. Of a persisted array, the last record with a given \<open>jobId\<close> is the job the runner
  holds under that id after its construction: with status \<open>failed\<close>, code \<open>-1\<close>, \<open>endedAt\<close>
  the time of loading and, when \<open>startedAt\<close> is known, \<open>durationMs\<close> the time since then
  (not below \<open>0\<close>) if the stored status was \<open>queued\<close> or \<open>running\<close>; as stored otherwise.
  \<open>cancelRequested\<close> is off. The ids the runner knows are those of the records with a
  \<open>jobId\<close>: entries that are no objects or have no \<open>jobId\<close> are skipped.
\<close>

theorem load_recovers:
  assumes "es = pre @ Object r # post" and "jobId r \<noteq> []"
    and "jobId r \<notin> set (entry_ids post)"
  shows "(\<exists>j. loaded (ScriptRunner e cfg (Entries es) fs) (jobId r) = Some j \<and>
              cancelRequested j = False \<and>
              serializeJob j =
                (if status r = QUEUED \<or> status r = RUNNING
                 then r\<lparr>status := FAILED, code := Some (- 1), endedAt := Some (now e),
                        durationMs := (case startedAt r of
                                         None \<Rightarrow> durationMs r
                                       | Some t \<Rightarrow> Some (max 0 (now e - t)))\<rparr>
                 else r)) \<and>
         (\<forall>k. loaded (ScriptRunner e cfg (Entries es) fs) k \<noteq> None \<longleftrightarrow> k \<in> set (entry_ids es))"
proof -
  from ScriptRunner_Entries [of e cfg es fs] obtain s0
    where s0: "jobs s0 = []" "heap s0 = []"
      and eq: "ScriptRunner e cfg (Entries es) fs = fold (loadEntry e) es s0"
    by blast
  define s1 where "s1 = fold (loadEntry e) pre s0"
  define s2 where "s2 = loadEntry e (Object r) s1"
  define a where "a = length (heap s1)"
  have run: "ScriptRunner e cfg (Entries es) fs = fold (loadEntry e) post s2"
    unfolding eq by (simp add: assms(1) s1_def s2_def)
  from loadEntry_here [OF assms(2), where e = e and s = s1]
  have m: "map_of (jobs s2) (jobId r) = Some a"
    and h: "heap s2 ! a = job_of_record (recover e r)"
    and l: "a < length (heap s2)"
    by (simp_all add: s2_def a_def)
  from fold_loadEntry_elsewhere [OF m l assms(3), where e = e] h
  have "loaded (ScriptRunner e cfg (Entries es) fs) (jobId r) = Some (job_of_record (recover e r))"
    by (simp add: loaded_def run)
  then have first: "\<exists>j. loaded (ScriptRunner e cfg (Entries es) fs) (jobId r) = Some j \<and>
              cancelRequested j = False \<and>
              serializeJob j =
                (if status r = QUEUED \<or> status r = RUNNING
                 then r\<lparr>status := FAILED, code := Some (- 1), endedAt := Some (now e),
                        durationMs := (case startedAt r of
                                         None \<Rightarrow> durationMs r
                                       | Some t \<Rightarrow> Some (max 0 (now e - t)))\<rparr>
                 else r)"
    by (simp add: serializeJob_job_of_record cancelRequested_job_of_record
          recover_explicit [symmetric])
  have second: "loaded (ScriptRunner e cfg (Entries es) fs) k \<noteq> None \<longleftrightarrow> k \<in> set (entry_ids es)"
    for k
    using fold_loadEntry_dom [of e es s0 k] s0
    by (cases "map_of (jobs (fold (loadEntry e) es s0)) k") (simp_all add: loaded_def eq)
  from first second show ?thesis by blast
qed

theorem load_recovers_witness:
  "demo_disk = [Non_object] @ Object (serializeJob demo_job1) #
                 [Object ((serializeJob demo_job2)\<lparr>jobId := []\<rparr>)] \<and>
   jobId (serializeJob demo_job1) = ''job_1000_1'' \<and> status (serializeJob demo_job1) = RUNNING \<and>
   entry_ids demo_disk = [''job_1000_1''] \<and>
   (\<exists>j. loaded (ScriptRunner (demo_env\<lparr>now := 5000\<rparr>) demo_config (Entries demo_disk) (\<lambda>p. None))
           ''job_1000_1'' = Some j \<and>
        status j = FAILED \<and> code j = Some (- 1) \<and> endedAt j = Some 5000 \<and>
        durationMs j = Some 4000 \<and> startedAt j = Some 1000) \<and>
   loaded (ScriptRunner (demo_env\<lparr>now := 5000\<rparr>) demo_config (Entries demo_disk) (\<lambda>p. None)) [] = None"
proof -
  define r where "r = serializeJob demo_job1"
  define post where "post = [Object ((serializeJob demo_job2)\<lparr>jobId := []\<rparr>)]"
  define s where
    "s = ScriptRunner (demo_env\<lparr>now := 5000\<rparr>) demo_config (Entries demo_disk) (\<lambda>p. None)"
  have d: "demo_disk = [Non_object] @ Object r # post"
    by (simp add: demo_disk_def r_def post_def)
  have k: "jobId r = ''job_1000_1''" and st: "status r = RUNNING"
    and sa: "startedAt r = Some 1000"
    by (simp_all add: r_def serializeJob_def demo_job1_def)
  from k have i: "jobId r \<noteq> []" by simp
  have p: "jobId r \<notin> set (entry_ids post)"
    by (simp add: post_def entry_ids_def)
  have ids: "entry_ids demo_disk = [''job_1000_1'']"
    by (simp add: demo_disk_def entry_ids_def serializeJob_def demo_job1_def)
  note t = load_recovers [OF d i p, where e = "demo_env\<lparr>now := 5000\<rparr>" and cfg = demo_config
      and fs = "\<lambda>p. None"]
  from t have "\<exists>j. loaded s (jobId r) = Some j \<and> cancelRequested j = False \<and>
      serializeJob j =
        (if status r = QUEUED \<or> status r = RUNNING
         then r\<lparr>status := FAILED, code := Some (- 1),
                endedAt := Some (now (demo_env\<lparr>now := 5000\<rparr>)),
                durationMs := (case startedAt r of
                                 None \<Rightarrow> durationMs r
                               | Some t \<Rightarrow> Some (max 0 (now (demo_env\<lparr>now := 5000\<rparr>) - t)))\<rparr>
         else r)"
    unfolding s_def by (rule conjunct1)
  then obtain j where j: "loaded s ''job_1000_1'' = Some j"
    and sj: "serializeJob j =
               r\<lparr>status := FAILED, code := Some (- 1), endedAt := Some 5000,
                 durationMs := Some 4000\<rparr>"
    unfolding k st sa by auto
  have "status (serializeJob j) = FAILED" "code (serializeJob j) = Some (- 1)"
    "endedAt (serializeJob j) = Some 5000" "durationMs (serializeJob j) = Some 4000"
    "startedAt (serializeJob j) = Some 1000"
    unfolding sj by (simp_all add: sa)
  then have f: "status j = FAILED \<and> code j = Some (- 1) \<and> endedAt j = Some 5000 \<and>
        durationMs j = Some 4000 \<and> startedAt j = Some 1000"
    by (simp add: serializeJob_def)
  from t have "\<forall>k. loaded s k \<noteq> None \<longleftrightarrow> k \<in> set (entry_ids demo_disk)"
    unfolding s_def by (rule conjunct2)
  then have "loaded s [] \<noteq> None \<longleftrightarrow> [] \<in> set (entry_ids demo_disk)"
    by (rule spec)
  then have n: "loaded s [] = None"
    unfolding ids by simp
  from j f have e: "\<exists>j. loaded s ''job_1000_1'' = Some j \<and>
        status j = FAILED \<and> code j = Some (- 1) \<and> endedAt j = Some 5000 \<and>
        durationMs j = Some 4000 \<and> startedAt j = Some 1000"
    by blast
  show ?thesis
    using d k st ids e n unfolding r_def post_def s_def by blast
qed

end
